theory Spec2Isabelle
  imports Main "HOL-Library.Char_ord" "HOL-Library.List_Lexorder"
begin

section \<open>Python values, errors and strings\<close>

text \<open>
  The client (\<^verbatim>\<open>src/git4intel/client.py\<close>, class \<^verbatim>\<open>Client\<close>) wraps an
  elasticsearch client. Exceptions of the Python code are values of \<open>error\<close>; a
  method that can raise returns \<open>error + 'a\<close>, with \<open>Inl\<close> the exception.
\<close>

datatype error =
    IndexError
  | KeyError
  | TypeError
  | AttributeError
  | ValueError
  | InvalidValueError
  | UnknownSchema
  | TransportError

text \<open>
  An argument whose Python type the code tests with \<^verbatim>\<open>isinstance\<close>: a string, a
  list of strings, or any other value.
\<close>

datatype pyval = PyStr string | PyList "string list" | PyOther

text \<open>
  \<^verbatim>\<open>s.split('--')\<close>: the pieces of \<open>s\<close> between the non-overlapping occurrences
  of \<^verbatim>\<open>--\<close>, scanned from the left; never the empty list. The first argument
  collects the current piece in reverse.
\<close>

fun split_dd :: "string \<Rightarrow> string \<Rightarrow> string list" where
  "split_dd acc (c # d # cs) =
     (if c = CHR ''-'' \<and> d = CHR ''-'' then rev acc # split_dd [] cs
      else split_dd (c # acc) (d # cs))"
| "split_dd acc [c] = [rev (c # acc)]"
| "split_dd acc [] = [rev acc]"

definition py_split :: "string \<Rightarrow> string list" where
  "py_split s = split_dd [] s"

text \<open>\<^verbatim>\<open>s.split('--')[0]\<close> (always there) and \<^verbatim>\<open>s.split('--')[1]\<close> (IndexError
  when \<open>s\<close> holds no \<^verbatim>\<open>--\<close>).\<close>

definition part0 :: "string \<Rightarrow> string" where
  "part0 s = hd (py_split s)"

definition part1 :: "string \<Rightarrow> error + string" where
  "part1 s = (case py_split s of _ # b # _ \<Rightarrow> Inr b | _ \<Rightarrow> Inl IndexError)"

text \<open>
  \<^verbatim>\<open>str(xs)\<close> of a list of strings: \<^verbatim>\<open>['a', 'b']\<close>. The identifiers hold no quote
  and no backslash, so \<^verbatim>\<open>repr\<close> of an element is the element between single quotes.
\<close>

definition py_repr :: "string \<Rightarrow> string" where
  "py_repr s = [CHR 0x27] @ s @ [CHR 0x27]"

fun py_join :: "string \<Rightarrow> string list \<Rightarrow> string" where
  "py_join sep [] = []"
| "py_join sep [x] = x"
| "py_join sep (x # y # ys) = x @ sep @ py_join sep (y # ys)"

definition py_str_list :: "string list \<Rightarrow> string" where
  "py_str_list xs = ''['' @ py_join '', '' (map py_repr xs) @ '']''"

section \<open>Documents, queries and the store\<close>

text \<open>
  A value of a document field as the traversal reads it: a string or a list of
  strings. A document (\<^verbatim>\<open>hit['_source']\<close>) is its fields in order.
\<close>

datatype jval = JStr string | JList "string list"

type_synonym source = "(string \<times> jval) list"

text \<open>
  The elasticsearch query DSL as far as the client builds it. \<open>Bool must should
  must_not filter\<close> is \<^verbatim>\<open>{"bool": {...}}\<close> with the clauses present; a key that
  holds one query and a key that holds a one-element list are the same query.
\<close>

datatype query =
    Match string string
  | ExistsField string
  | QueryString "string list" string
  | Bool "query list" "query list" "query list" "query list"

text \<open>
  The marking definition that \<^verbatim>\<open>set_tlpplus\<close> serialises: the fields the code
  sets. (\<^verbatim>\<open>type\<close>, \<^verbatim>\<open>spec_version\<close> and the creation time that the stix2
  library adds are left out.)
\<close>

record marking_definition =
  md_id :: string
  created_by_ref :: string
  definition_type :: string
  tlp_marking_def_ref :: string
  distribution_refs :: "string list"

record view =
  alias_indices :: "string list"
  alias_filter :: query

datatype index_arg = IName string | IFalse

record es_request =
  req_index :: index_arg
  req_size :: nat
  req_body :: "query option"
  req_filter_path :: "string list"
  req_source_excludes :: "string list"

text \<open>The \<^verbatim>\<open>schema\<close> argument of \<^verbatim>\<open>Client.search\<close>: absent, a name, a list of
  names, or a clause (a dict).\<close>

datatype schema_arg = SNone | SName string | SNames "string list" | SClause query

text \<open>The keyword arguments of \<^verbatim>\<open>Client.search\<close> that the client's own calls
  pass; \<open>None\<close> and \<open>[]\<close> are "not given". \<open>kw_body\<close> is the value under
  \<^verbatim>\<open>body['query']\<close>.\<close>

record kwargs =
  kw_index :: "string option"
  kw_size :: "nat option"
  kw_body :: "query option"
  kw_filter_path :: "string list"
  kw_source_excludes :: "string list"

text \<open>
  Every call that reaches the store, and every call of \<^verbatim>\<open>Client.search\<close> (by whom
  and for which schema), in the order they happen.
\<close>

datatype event =
    ClientSearch string schema_arg
  | EsSearch es_request
  | EsMget "(string \<times> string) list"
  | EsExists string string
  | EsIndex string string
  | EsExistsAlias string
  | EsDeleteAlias string
  | EsCatAliases string
  | EsPutAlias "string list" string query

text \<open>
  The state outside the client: the documents of the store that \<^verbatim>\<open>set_tlpplus\<close>
  writes (by index and document id), the aliases, the calendar day, and the calls
  made so far.
\<close>

record es =
  docs :: "string \<times> string \<Rightarrow> marking_definition option"
  aliases :: "string \<Rightarrow> view option"
  today :: nat
  trace :: "event list"

text \<open>
  What the client is given: the helpers of \<^verbatim>\<open>utils\<close> (not among the sources),
  the stix2 library's checks, the answers of the store to reads, and the constants
  set in \<^verbatim>\<open>__init__\<close>.
  \<^item> \<open>uuid5\<close>: the hash inside \<^verbatim>\<open>get_deterministic_uuid\<close>;
  \<^item> \<open>alias_root\<close>, \<open>alias_date\<close>: the two results of \<^verbatim>\<open>md_time_index\<close>;
  \<^item> \<open>get_schema\<close>: the \<^verbatim>\<open>['bool']['should']\<close> clauses of a named schema,
    \<open>None\<close> when the lookup raises; \<open>get_all_schemas\<close> likewise for every schema;
  \<^item> \<open>stix_valid\<close>: whether the stix2 constructors accept the marking;
  \<^item> \<open>es_hits\<close>, \<open>es_mget\<close>: the store's answer to a search and to a batch get,
    which may depend on the documents, the aliases and the day;
  \<^item> \<open>write_ok\<close>: whether the store accepts a write to an index and id;
  \<^item> \<open>list_set\<close>: the order in which \<^verbatim>\<open>list(set(xs))\<close> lists the elements.
\<close>

record env =
  uuid5 :: "string \<Rightarrow> string"
  alias_root :: "string \<Rightarrow> string \<Rightarrow> string"
  alias_date :: "nat \<Rightarrow> string"
  get_schema :: "string \<Rightarrow> query list option"
  get_all_schemas :: "query list list"
  stix_valid :: "marking_definition \<Rightarrow> bool"
  es_hits :: "es \<Rightarrow> es_request \<Rightarrow> error + source list"
  es_mget :: "es \<Rightarrow> (string \<times> string) list \<Rightarrow> source option list"
  write_ok :: "string \<Rightarrow> string \<Rightarrow> bool"
  list_set :: "string list \<Rightarrow> string list"
  identity_id :: string
  os_group_id :: string
  pii_marking_id :: string

definition log :: "event \<Rightarrow> es \<Rightarrow> es" where
  "log e st = st\<lparr>trace := trace st @ [e]\<rparr>"

text \<open>The state as the store's reads see it: without the calls made so far.\<close>

definition store_of :: "es \<Rightarrow> es" where
  "store_of st = st\<lparr>trace := []\<rparr>"

text \<open>
  Modelled from the spec: \<^verbatim>\<open>utils.get_deterministic_uuid(prefix, seed)\<close>, which is
  not among the sources. The spec calls the identifier a content hash of the seed;
  the result is the prefix followed by the hash.
\<close>

definition get_deterministic_uuid :: "env \<Rightarrow> string \<Rightarrow> string \<Rightarrow> string" where
  "get_deterministic_uuid env prefix seed = prefix @ uuid5 env seed"

text \<open>The identifiers of the stix2 library's TLP AMBER and TLP RED markings
  (\<^verbatim>\<open>stix2.TLP_AMBER.id\<close>, \<^verbatim>\<open>stix2.TLP_RED.id\<close>).\<close>

definition TLP_AMBER_id :: string where
  "TLP_AMBER_id = ''marking-definition--f88d31f6-486f-44da-b317-01333bde0b82''"

definition TLP_RED_id :: string where
  "TLP_RED_id = ''marking-definition--5e57c739-391a-4eb3-b6be-7d15ca92d5ed''"

section \<open>Storing objects\<close>

text \<open>The store's \<^verbatim>\<open>exists\<close> and \<^verbatim>\<open>index\<close> calls. \<^verbatim>\<open>index\<close> answers
  \<^verbatim>\<open>created\<close> or \<^verbatim>\<open>updated\<close> when it wrote the document.\<close>

definition es_exists :: "es \<Rightarrow> string \<Rightarrow> string \<Rightarrow> bool \<times> es" where
  "es_exists st idx i = (docs st (idx, i) \<noteq> None, log (EsExists idx i) st)"

definition es_index :: "env \<Rightarrow> es \<Rightarrow> string \<Rightarrow> marking_definition \<Rightarrow> string \<Rightarrow> string \<times> es" where
  "es_index env st idx body i =
     (let st1 = log (EsIndex idx i) st in
      if write_ok env idx i
      then (if docs st (idx, i) = None then ''created'' else ''updated'',
            st1\<lparr>docs := (docs st1)((idx, i) \<mapsto> body)\<rparr>)
      else (''noop'', st1))"

text \<open>\<^verbatim>\<open>Client.__store_object\<close>, and \<^verbatim>\<open>Client.store_objects\<close> on one object (a
  dict, not a list).\<close>

definition store_object :: "env \<Rightarrow> es \<Rightarrow> marking_definition \<Rightarrow> (error + bool) \<times> es" where
  "store_object env st obj =
     (let index_name = part0 (md_id obj) in
      case part1 (md_id obj) of
        Inl e \<Rightarrow> (Inl e, st)
      | Inr doc_id \<Rightarrow>
          (case es_index env st index_name obj doc_id of
             (res, st1) \<Rightarrow> (Inr (res = ''created'' \<or> res = ''updated''), st1)))"

definition store_objects :: "env \<Rightarrow> es \<Rightarrow> marking_definition \<Rightarrow> (error + bool) \<times> es" where
  "store_objects env st objects = store_object env st objects"

section \<open>The marking manager: \<^verbatim>\<open>set_tlpplus\<close>\<close>

datatype tlp_result = TFalse | TId string | TCreated string marking_definition

text \<open>
  \<^verbatim>\<open>Client.set_tlpplus(user_id, tlp_marking_def_ref, distribution_refs)\<close>. The
  result is what the method returns, the caller's \<^verbatim>\<open>distribution_refs\<close> object as
  the call leaves it (the method appends to it in place), and the state.
  \<open>sorted_refs\<close> is the rebound local \<^verbatim>\<open>distribution_refs = sorted(set(...))\<close>,
  which nothing reads afterwards.
\<close>

definition set_tlpplus ::
  "env \<Rightarrow> es \<Rightarrow> string \<Rightarrow> string \<Rightarrow> pyval \<Rightarrow> (error + tlp_result) \<times> pyval \<times> es" where
  "set_tlpplus env st user_id tlp_ref distribution_arg =
     (if part0 user_id \<noteq> ''identity'' then (Inr TFalse, distribution_arg, st)
      else case distribution_arg of
        PyStr _ \<Rightarrow> (Inr TFalse, distribution_arg, st)
      | PyOther \<Rightarrow> (Inr TFalse, distribution_arg, st)
      | PyList refs \<Rightarrow>
          if tlp_ref \<noteq> TLP_AMBER_id \<and> tlp_ref \<noteq> TLP_RED_id
          then (Inr TFalse, distribution_arg, st)
          else
            let ref_list = refs;
                caller_list = PyList (refs @ [tlp_ref]);
                sorted_refs = sort (remdups (refs @ [tlp_ref]));
                new_id = get_deterministic_uuid env ''marking-definition--'' (py_str_list ref_list)
            in case part1 new_id of
                 Inl e \<Rightarrow> (Inl e, caller_list, st)
               | Inr doc_id \<Rightarrow>
                   (case es_exists st ''marking-definition'' doc_id of
                      (True, st1) \<Rightarrow> (Inr (TId new_id), caller_list, st1)
                    | (False, st1) \<Rightarrow>
                        let md_json = \<lparr>md_id = new_id, created_by_ref = user_id,
                                       definition_type = ''tlp-plus'',
                                       tlp_marking_def_ref = tlp_ref,
                                       distribution_refs = ref_list\<rparr>
                        in if \<not> stix_valid env md_json then (Inl InvalidValueError, caller_list, st1)
                           else (case store_objects env st1 md_json of
                                   (Inl e, st2) \<Rightarrow> (Inl e, caller_list, st2)
                                 | (Inr False, st2) \<Rightarrow> (Inr TFalse, caller_list, st2)
                                 | (Inr True, st2) \<Rightarrow>
                                     (Inr (TCreated new_id md_json), caller_list, st2))))"

section \<open>\<^verbatim>\<open>Client.search\<close>\<close>

text \<open>
  The store's search (\<^verbatim>\<open>Elasticsearch.search\<close>): at most \<open>size\<close> hits of those
  that match. Every call modelled here passes \<^verbatim>\<open>filter_path\<close>, for which the
  store answers with an empty body when nothing matches, so \<^verbatim>\<open>bool(res)\<close> is
  "there is a hit" and \<^verbatim>\<open>res['hits']['hits']\<close> is the list of hits.
\<close>

definition es_search :: "env \<Rightarrow> es \<Rightarrow> es_request \<Rightarrow> (error + source list) \<times> es" where
  "es_search env st req =
     (case es_hits env (store_of st) req of
        Inl e \<Rightarrow> (Inl e, log (EsSearch req) st)
      | Inr hits \<Rightarrow> (Inr (take (req_size req) hits), log (EsSearch req) st))"

datatype gim_result = GFalse | GAlias string

text \<open>An optional flag that is on when it is not given (\<^verbatim>\<open>_md\<close>, \<^verbatim>\<open>pivot\<close>).\<close>

fun default_true :: "bool option \<Rightarrow> bool" where
  "default_true None = True"
| "default_true (Some b) = b"

text \<open>Python's truth value of the \<^verbatim>\<open>schema\<close> argument.\<close>

fun schema_truthy :: "schema_arg \<Rightarrow> bool" where
  "schema_truthy SNone = False"
| "schema_truthy (SName s) = (s \<noteq> [])"
| "schema_truthy (SNames ns) = (ns \<noteq> [])"
| "schema_truthy (SClause c) = True"

fun get_schemas :: "env \<Rightarrow> string list \<Rightarrow> error + query list" where
  "get_schemas env [] = Inr []"
| "get_schemas env (n # ns) =
     (case get_schema env n of
        None \<Rightarrow> Inl UnknownSchema
      | Some cs \<Rightarrow> (case get_schemas env ns of Inl e \<Rightarrow> Inl e | Inr ds \<Rightarrow> Inr (cs @ ds)))"

text \<open>The list \<^verbatim>\<open>_schema_should\<close> that \<^verbatim>\<open>search\<close> builds from a truthy schema.\<close>

fun schema_should :: "env \<Rightarrow> schema_arg \<Rightarrow> error + query list" where
  "schema_should env (SClause c) = Inr [c]"
| "schema_should env (SName s) =
     (if s = ''all'' then Inr (concat (get_all_schemas env)) else get_schemas env [s])"
| "schema_should env (SNames ns) = get_schemas env ns"
| "schema_should env SNone = Inr []"

text \<open>
  \<^verbatim>\<open>Client.search(user_id, schema, _md, **kwargs)\<close>. The first argument stands for
  the method \<^verbatim>\<open>get_id_markings\<close>, which \<^verbatim>\<open>search\<close> calls when \<^verbatim>\<open>_md\<close> is on and
  which itself searches with \<^verbatim>\<open>_md\<close> off. When it returns \<^verbatim>\<open>False\<close> the store
  is searched with \<^verbatim>\<open>index=False\<close>.
\<close>

definition search_gen ::
  "(es \<Rightarrow> string \<Rightarrow> string \<Rightarrow> (error + gim_result) \<times> es) \<Rightarrow> env \<Rightarrow> es \<Rightarrow> string \<Rightarrow>
   schema_arg \<Rightarrow> bool option \<Rightarrow> kwargs \<Rightarrow> (error + source list) \<times> es" where
  "search_gen gim env st user_id schema md_arg kw =
     (let st0 = log (ClientSearch user_id schema) st;
          md = default_true md_arg;
          index = (case kw_index kw of None \<Rightarrow> ''intel'' | Some i \<Rightarrow> i);
          size = (case kw_size kw of None \<Rightarrow> 10000 | Some n \<Rightarrow> n);
          req = \<lparr>req_index = IName index, req_size = size, req_body = kw_body kw,
                 req_filter_path = kw_filter_path kw,
                 req_source_excludes = kw_source_excludes kw\<rparr>
      in if \<not> schema_truthy schema \<and> \<not> md then es_search env st0 req
         else
           case (if md
                 then (case gim st0 user_id index of
                         (Inl e, st1) \<Rightarrow> (Inl e, st1)
                       | (Inr GFalse, st1) \<Rightarrow> (Inr IFalse, st1)
                       | (Inr (GAlias a), st1) \<Rightarrow> (Inr (IName a), st1))
                 else (Inr (IName index), st0)) of
             (Inl e, st1) \<Rightarrow> (Inl e, st1)
           | (Inr idx, st1) \<Rightarrow>
               if schema_truthy schema
               then (case schema_should env schema of
                       Inl e \<Rightarrow> (Inl e, st1)
                     | Inr should \<Rightarrow>
                         (case kw_body kw of
                            None \<Rightarrow> (Inl KeyError, st1)
                          | Some q \<Rightarrow>
                              es_search env st1
                                (req\<lparr>req_index := idx,
                                     req_body := Some (Bool [q] [] [] [Bool [] should [] []])\<rparr>)))
               else es_search env st1 (req\<lparr>req_index := idx\<rparr>))"

section \<open>The traversal: \<^verbatim>\<open>get_molecule\<close>\<close>

datatype mol_result = MFalse | MIds "string list" | MObjs "source list"

text \<open>\<^verbatim>\<open>_id.split('--')[1]\<close> for every identifier in turn; the first identifier
  without \<^verbatim>\<open>--\<close> raises.\<close>

fun id_parts :: "string list \<Rightarrow> error + string list" where
  "id_parts [] = Inr []"
| "id_parts (x # xs) =
     (case part1 x of
        Inl e \<Rightarrow> Inl e
      | Inr p \<Rightarrow> (case id_parts xs of Inl e \<Rightarrow> Inl e | Inr ps \<Rightarrow> Inr (p # ps)))"

text \<open>The query of one round, from the second halves of the identifiers:
  \<^verbatim>\<open>q_str\<close> is every part followed by \<^verbatim>\<open>" OR "\<close>, without its last four
  characters.\<close>

definition mol_q_str :: "string list \<Rightarrow> string" where
  "mol_q_str parts =
     (let s = concat (map (\<lambda>p. p @ '' OR '') parts) in take (length s - 4) s)"

definition mol_query :: "string list \<Rightarrow> query" where
  "mol_query parts =
     Bool [Bool [] (map (Match ''id'') parts @
                    [QueryString [''*_ref'', ''*_refs''] (mol_q_str parts)]) [] []] [] [] []"

definition mol_kwargs :: "query \<Rightarrow> kwargs" where
  "mol_kwargs q =
     \<lparr>kw_index = None, kw_size = None, kw_body = Some q,
      kw_filter_path = [''hits.hits._source.id'', ''hits.hits._source.*_ref'',
                        ''hits.hits._source.*_refs''],
      kw_source_excludes = [''created_by_ref'', ''object_marking_refs'']\<rparr>"

text \<open>The schemas of a round: the name itself with \<^verbatim>\<open>pivot\<close>, the clauses of
  the named schema without.\<close>

definition mol_schemas :: "env \<Rightarrow> bool \<Rightarrow> string \<Rightarrow> error + schema_arg list" where
  "mol_schemas env pivot schema_name =
     (if pivot then Inr [SName schema_name]
      else case get_schema env schema_name of
             None \<Rightarrow> Inl UnknownSchema
           | Some cs \<Rightarrow> Inr (map SClause cs))"

text \<open>The identifiers a hit adds: every value of its fields; of a list, the
  elements that are not empty.\<close>

fun value_ids :: "jval \<Rightarrow> string list" where
  "value_ids (JList vs) = filter (\<lambda>s. s \<noteq> []) vs"
| "value_ids (JStr s) = [s]"

definition hit_ids :: "source list \<Rightarrow> string list" where
  "hit_ids hits = concat (map (\<lambda>hit. concat (map (\<lambda>(k, v). value_ids v) hit)) hits)"

text \<open>
  The loop \<^verbatim>\<open>for schema in schemas\<close> of one round. \<open>srch\<close> is the call of
  \<^verbatim>\<open>self.search\<close> with the round's query. Without \<^verbatim>\<open>pivot\<close>, a schema is skipped
  when \<^verbatim>\<open>check_lst[count] is True\<close> (\<^verbatim>\<open>continue\<close>, which leaves \<^verbatim>\<open>count\<close> as it
  is); after a search \<^verbatim>\<open>check_lst[count]\<close> is set to \<^verbatim>\<open>bool(res)\<close>, or appended when
  the index is out of range, and \<^verbatim>\<open>count\<close> goes up.
\<close>

fun mol_clauses ::
  "(es \<Rightarrow> schema_arg \<Rightarrow> (error + source list) \<times> es) \<Rightarrow> bool \<Rightarrow> schema_arg list \<Rightarrow> nat \<Rightarrow>
   bool list \<Rightarrow> string list \<Rightarrow> es \<Rightarrow> (error + bool list \<times> string list) \<times> es" where
  "mol_clauses srch pivot [] count check_lst ids st = (Inr (check_lst, ids), st)"
| "mol_clauses srch pivot (schema # rest) count check_lst ids st =
     (if \<not> pivot \<and> count < length check_lst \<and> check_lst ! count
      then mol_clauses srch pivot rest count check_lst ids st
      else case srch st schema of
             (Inl e, st1) \<Rightarrow> (Inl e, st1)
           | (Inr hits, st1) \<Rightarrow>
               mol_clauses srch pivot rest
                 (if pivot then count else Suc count)
                 (if pivot then check_lst
                  else if count < length check_lst then check_lst[count := (hits \<noteq> [])]
                  else check_lst @ [hits \<noteq> []])
                 (ids @ hit_ids hits) st1)"

text \<open>One round up to \<^verbatim>\<open>ids = list(set(ids))\<close>: the new check list and the
  identifiers collected, before they are de-duplicated.\<close>

definition mol_round ::
  "(es \<Rightarrow> string \<Rightarrow> schema_arg \<Rightarrow> bool option \<Rightarrow> kwargs \<Rightarrow> (error + source list) \<times> es) \<Rightarrow>
   env \<Rightarrow> string \<Rightarrow> string \<Rightarrow> bool \<Rightarrow> bool \<Rightarrow> string list \<Rightarrow> bool list \<Rightarrow> es \<Rightarrow>
   (error + bool list \<times> string list) \<times> es" where
  "mol_round srch env user_id schema_name pivot md ids check_lst st =
     (case id_parts ids of
        Inl e \<Rightarrow> (Inl e, st)
      | Inr parts \<Rightarrow>
          (case mol_schemas env pivot schema_name of
             Inl e \<Rightarrow> (Inl e, st)
           | Inr schemas \<Rightarrow>
               mol_clauses
                 (\<lambda>s schema. srch s user_id schema (Some md) (mol_kwargs (mol_query parts)))
                 pivot schemas 0 check_lst ids st))"

text \<open>The keyword arguments of the last search, for the objects: the
  identifiers found, together with the caller's \<^verbatim>\<open>query\<close> when there is one.\<close>

definition final_kwargs :: "query option \<Rightarrow> string list \<Rightarrow> kwargs" where
  "final_kwargs query_arg parts =
     \<lparr>kw_index = None, kw_size = None,
      kw_body = Some
        (case query_arg of
           Some qq \<Rightarrow> Bool [qq, Bool [] (map (Match ''id'') parts) [] []] [] [] []
         | None \<Rightarrow> Bool [Bool [] (map (Match ''id'') parts) [] []] [] [] []),
      kw_filter_path = [''hits.hits._source''],
      kw_source_excludes = []\<rparr>"

text \<open>The branch \<^verbatim>\<open>new_len == old_len\<close>: the identifiers, or one more search
  for the objects.\<close>

definition mol_finish ::
  "(es \<Rightarrow> string \<Rightarrow> schema_arg \<Rightarrow> bool option \<Rightarrow> kwargs \<Rightarrow> (error + source list) \<times> es) \<Rightarrow>
   string \<Rightarrow> string \<Rightarrow> bool \<Rightarrow> query option \<Rightarrow> bool \<Rightarrow> string list \<Rightarrow> es \<Rightarrow>
   (error + mol_result) \<times> es" where
  "mol_finish srch user_id schema_name objs query_arg md ids st =
     (if \<not> objs then (Inr (MIds ids), st)
      else case id_parts ids of
             Inl e \<Rightarrow> (Inl e, st)
           | Inr parts \<Rightarrow>
               (case srch st user_id (SName schema_name) (Some md) (final_kwargs query_arg parts) of
                  (Inl e, st1) \<Rightarrow> (Inl e, st1)
                | (Inr hits, st1) \<Rightarrow> (Inr (MObjs hits), st1)))"

text \<open>The loop \<^verbatim>\<open>while True\<close>, from the values of \<^verbatim>\<open>failed\<close>, \<^verbatim>\<open>ids\<close> and
  \<^verbatim>\<open>check_lst\<close> at the start of a round.\<close>

function mol_loop ::
  "(es \<Rightarrow> string \<Rightarrow> schema_arg \<Rightarrow> bool option \<Rightarrow> kwargs \<Rightarrow> (error + source list) \<times> es) \<Rightarrow>
   env \<Rightarrow> string \<Rightarrow> string \<Rightarrow> bool \<Rightarrow> query option \<Rightarrow> bool \<Rightarrow> bool \<Rightarrow>
   nat \<Rightarrow> string list \<Rightarrow> bool list \<Rightarrow> es \<Rightarrow> (error + mol_result) \<times> es" where
  "mol_loop srch env user_id schema_name objs query_arg pivot md failed ids check_lst st =
     (case mol_round srch env user_id schema_name pivot md ids check_lst st of
        (Inl e, st1) \<Rightarrow> (Inl e, st1)
      | (Inr (check_lst1, ids1), st1) \<Rightarrow>
          if length (list_set env ids1) = length ids
          then mol_finish srch user_id schema_name objs query_arg md (list_set env ids1) st1
          else if failed + 1 > 3 then (Inr MFalse, st1)
          else mol_loop srch env user_id schema_name objs query_arg pivot md
                 (failed + 1) (list_set env ids1) check_lst1 st1)"
  by pat_completeness auto
termination
  by (relation "measure (\<lambda>(srch, env, user_id, schema_name, objs, query_arg, pivot, md,
                            failed, ids, check_lst, st). 4 - failed)") auto

declare mol_loop.simps [simp del]

text \<open>\<^verbatim>\<open>Client.get_molecule\<close>, over the \<^verbatim>\<open>search\<close> method it calls.\<close>

definition get_molecule_gen ::
  "(es \<Rightarrow> string \<Rightarrow> schema_arg \<Rightarrow> bool option \<Rightarrow> kwargs \<Rightarrow> (error + source list) \<times> es) \<Rightarrow>
   env \<Rightarrow> es \<Rightarrow> string \<Rightarrow> string list \<Rightarrow> pyval \<Rightarrow> bool option \<Rightarrow> query option \<Rightarrow>
   bool option \<Rightarrow> bool option \<Rightarrow> (error + mol_result) \<times> es" where
  "get_molecule_gen srch env st user_id stix_ids schema_name objs query_arg pivot_arg md_arg =
     (let md = default_true md_arg;
          pivot = default_true pivot_arg
      in case schema_name of
           PyStr name \<Rightarrow>
             mol_loop srch env user_id name (objs = Some True) query_arg pivot md 0 stix_ids [] st
         | PyList _ \<Rightarrow> (Inr MFalse, st)
         | PyOther \<Rightarrow> (Inr MFalse, st))"

section \<open>Reading objects: \<^verbatim>\<open>get_objects\<close>, \<^verbatim>\<open>get_object\<close>\<close>

text \<open>The \<^verbatim>\<open>_index\<close> and \<^verbatim>\<open>_id\<close> of every identifier, for the batch get.\<close>

fun doc_keys :: "string list \<Rightarrow> error + (string \<times> string) list" where
  "doc_keys [] = Inr []"
| "doc_keys (x # xs) =
     (case part1 x of
        Inl e \<Rightarrow> Inl e
      | Inr p \<Rightarrow> (case doc_keys xs of Inl e \<Rightarrow> Inl e | Inr ks \<Rightarrow> Inr ((part0 x, p) # ks)))"

text \<open>\<^verbatim>\<open>doc['_source']\<close> of every answer; a document that was not found has
  none (the KeyError that \<^verbatim>\<open>get_objects\<close> turns into \<^verbatim>\<open>False\<close>).\<close>

fun all_sources :: "source option list \<Rightarrow> source list option" where
  "all_sources [] = Some []"
| "all_sources (None # ds) = None"
| "all_sources (Some d # ds) = (case all_sources ds of None \<Rightarrow> None | Some xs \<Rightarrow> Some (d # xs))"

text \<open>\<^verbatim>\<open>Client.get_objects\<close> and \<^verbatim>\<open>Client.get_object\<close> without \<^verbatim>\<open>values\<close>;
  \<open>None\<close> is the result \<^verbatim>\<open>False\<close>.\<close>

definition get_objects ::
  "env \<Rightarrow> es \<Rightarrow> string \<Rightarrow> string list \<Rightarrow> (error + source list option) \<times> es" where
  "get_objects env st user_id obj_ids =
     (if obj_ids = [] then (Inr None, st)
      else if part0 user_id \<noteq> ''identity'' then (Inr None, st)
      else case doc_keys obj_ids of
             Inl e \<Rightarrow> (Inl e, st)
           | Inr g \<Rightarrow> (Inr (all_sources (es_mget env (store_of st) g)), log (EsMget g) st))"

definition get_object ::
  "env \<Rightarrow> es \<Rightarrow> string \<Rightarrow> string \<Rightarrow> (error + source option) \<times> es" where
  "get_object env st user_id obj_id =
     (case get_objects env st user_id [obj_id] of
        (Inl e, st1) \<Rightarrow> (Inl e, st1)
      | (Inr None, st1) \<Rightarrow> (Inr None, st1)
      | (Inr (Some []), st1) \<Rightarrow> (Inr None, st1)
      | (Inr (Some [d]), st1) \<Rightarrow> (Inr (Some d), st1)
      | (Inr (Some (d # d' # ds)), st1) \<Rightarrow> (Inr None, st1))"

section \<open>The policy view: \<^verbatim>\<open>get_id_markings\<close>\<close>

text \<open>
  Modelled from the spec: \<^verbatim>\<open>utils.md_time_index(user_id, old_alias)\<close>, which is
  not among the sources. The spec keys a view by user, logical index and calendar
  day: the first result names the user and the index, the second the day.
\<close>

definition md_time_index :: "env \<Rightarrow> es \<Rightarrow> string \<Rightarrow> string \<Rightarrow> string \<times> string" where
  "md_time_index env st user_id old_alias =
     (alias_root env user_id old_alias, alias_date env (today st))"

text \<open>\<^verbatim>\<open>name.startswith(root)\<close>: what the pattern \<^verbatim>\<open>root + '*'\<close> matches.\<close>

definition starts_with :: "string \<Rightarrow> string \<Rightarrow> bool" where
  "starts_with root name = (take (length root) name = root)"

text \<open>The store's alias calls. \<^verbatim>\<open>put_alias\<close> of the Python client raises
  ValueError on an empty list of indices.\<close>

definition es_exists_alias :: "es \<Rightarrow> string \<Rightarrow> bool \<times> es" where
  "es_exists_alias st name = (aliases st name \<noteq> None, log (EsExistsAlias name) st)"

definition es_delete_alias :: "es \<Rightarrow> string \<Rightarrow> es" where
  "es_delete_alias st root =
     (log (EsDeleteAlias (root @ ''*'')) st)
       \<lparr>aliases := (\<lambda>n. if starts_with root n then None else aliases st n)\<rparr>"

definition es_cat_aliases :: "es \<Rightarrow> string \<Rightarrow> string list \<times> es" where
  "es_cat_aliases st name =
     (case aliases st name of None \<Rightarrow> [] | Some v \<Rightarrow> alias_indices v, log (EsCatAliases name) st)"

definition es_put_alias :: "es \<Rightarrow> string list \<Rightarrow> string \<Rightarrow> query \<Rightarrow> (error + unit) \<times> es" where
  "es_put_alias st indices name body =
     (if indices = [] then (Inl ValueError, st)
      else (Inr (),
            (log (EsPutAlias indices name body) st)
              \<lparr>aliases := (aliases st)(name \<mapsto> \<lparr>alias_indices = indices, alias_filter = body\<rparr>)\<rparr>))"

text \<open>Iterating \<^verbatim>\<open>object_refs\<close>: the elements of a list, the characters of a
  string.\<close>

fun py_iter :: "jval \<Rightarrow> string list" where
  "py_iter (JList xs) = xs"
| "py_iter (JStr s) = map (\<lambda>c. [c]) s"

text \<open>The clauses for the open markings: one \<^verbatim>\<open>match\<close> for each
  \<^verbatim>\<open>os_id.split('--')[1]\<close>.\<close>

fun os_refs :: "string list \<Rightarrow> error + query list" where
  "os_refs [] = Inr []"
| "os_refs (x # xs) =
     (case part1 x of
        Inl e \<Rightarrow> Inl e
      | Inr p \<Rightarrow> (case os_refs xs of
                    Inl e \<Rightarrow> Inl e
                  | Inr qs \<Rightarrow> Inr (Match ''object_marking_refs'' p # qs)))"

text \<open>
  The loop \<^verbatim>\<open>for org in org_objs\<close>: \<^verbatim>\<open>org_should\<close> gains the identifier of an
  object whose \<^verbatim>\<open>type\<close> is \<^verbatim>\<open>organization\<close>; \<^verbatim>\<open>valid_refs\<close> gains, for every
  object, the clause "this identifier and the PII marking". The result is what the
  loop appends to each list.
\<close>

fun org_loop :: "string \<Rightarrow> source list \<Rightarrow> error + query list \<times> query list" where
  "org_loop pii [] = Inr ([], [])"
| "org_loop pii (org # orgs) =
     (case map_of org ''id'' of
        None \<Rightarrow> Inl KeyError
      | Some org_id \<Rightarrow>
          (case map_of org ''type'' of
             None \<Rightarrow> Inl KeyError
           | Some ty \<Rightarrow>
               (case org_id of
                  JList _ \<Rightarrow> Inl AttributeError
                | JStr i \<Rightarrow>
                    (case part1 i of
                       Inl e \<Rightarrow> Inl e
                     | Inr org_part \<Rightarrow>
                         (case part1 pii of
                            Inl e \<Rightarrow> Inl e
                          | Inr pii_part \<Rightarrow>
                              (case org_loop pii orgs of
                                 Inl e \<Rightarrow> Inl e
                               | Inr (should, valid) \<Rightarrow>
                                   Inr ((if ty = JStr ''organization''
                                         then [Match ''definition.distribution_refs'' org_part]
                                         else []) @ should,
                                        Bool [Match ''id'' org_part,
                                              Match ''object_marking_refs'' pii_part] [] [] []
                                        # valid)))))))"

text \<open>The clauses for the markings found: \<^verbatim>\<open>hit['_source']['id'].split('--')[1]\<close>.\<close>

fun hit_refs :: "source list \<Rightarrow> error + query list" where
  "hit_refs [] = Inr []"
| "hit_refs (h # hs) =
     (case map_of h ''id'' of
        None \<Rightarrow> Inl KeyError
      | Some (JList _) \<Rightarrow> Inl AttributeError
      | Some (JStr i) \<Rightarrow>
          (case part1 i of
             Inl e \<Rightarrow> Inl e
           | Inr p \<Rightarrow> (case hit_refs hs of
                         Inl e \<Rightarrow> Inl e
                       | Inr qs \<Rightarrow> Inr (Match ''object_marking_refs'' p # qs))))"

text \<open>The query of the org-chart traversal, and the search for marking
  definitions by \<^verbatim>\<open>org_should\<close>.\<close>

definition org_query :: query where
  "org_query = Bool [] [Match ''type'' ''identity'', Match ''type'' ''relationship''] [] []"

definition md_search_kwargs :: "query list \<Rightarrow> kwargs" where
  "md_search_kwargs org_should =
     \<lparr>kw_index = Some ''marking-definition'', kw_size = None,
      kw_body = Some (Bool [] org_should [] []),
      kw_filter_path = [''hits.hits._source.id''], kw_source_excludes = []\<rparr>"

text \<open>
  \<^verbatim>\<open>get_id_markings\<close> calls \<^verbatim>\<open>get_molecule\<close> and \<^verbatim>\<open>search\<close> with \<^verbatim>\<open>_md=False\<close>,
  and with \<^verbatim>\<open>_md\<close> off \<^verbatim>\<open>search\<close> does not call \<^verbatim>\<open>get_id_markings\<close>: \<open>search0\<close>
  is \<^verbatim>\<open>search\<close> for those calls (the branch it leaves out raises here).
\<close>

definition search0 ::
  "env \<Rightarrow> es \<Rightarrow> string \<Rightarrow> schema_arg \<Rightarrow> bool option \<Rightarrow> kwargs \<Rightarrow> (error + source list) \<times> es" where
  "search0 env = search_gen (\<lambda>st user_id index. (Inl TypeError, st)) env"

text \<open>The part of \<^verbatim>\<open>get_id_markings\<close> from the org-chart traversal on: the
  lists \<^verbatim>\<open>org_should\<close> and \<^verbatim>\<open>valid_refs\<close> as they end, or \<open>None\<close> where the
  method returns \<^verbatim>\<open>False\<close>. (The traversal is asked for objects, so it never
  returns identifiers.)\<close>

definition build_refs ::
  "env \<Rightarrow> es \<Rightarrow> string \<Rightarrow> query list \<Rightarrow> (error + (query list \<times> query list) option) \<times> es" where
  "build_refs env st user_id valid_refs0 =
     (case part1 user_id of
        Inl e \<Rightarrow> (Inl e, st)
      | Inr user_id_split \<Rightarrow>
          (case get_molecule_gen (search0 env) env st user_id [user_id] (PyStr ''org'')
                  (Some True) (Some org_query) None (Some False) of
             (Inl e, st1) \<Rightarrow> (Inl e, st1)
           | (Inr MFalse, st1) \<Rightarrow> (Inr None, st1)
           | (Inr (MIds _), st1) \<Rightarrow> (Inl TypeError, st1)
           | (Inr (MObjs org_objs), st1) \<Rightarrow>
               if org_objs = [] then (Inr None, st1)
               else (case org_loop (pii_marking_id env) org_objs of
                       Inl e \<Rightarrow> (Inl e, st1)
                     | Inr (should, valid) \<Rightarrow>
                         (let org_should =
                                Match ''definition.distribution_refs'' user_id_split # should
                          in case search0 env st1 user_id SNone (Some False)
                                    (md_search_kwargs org_should) of
                               (Inl e, st2) \<Rightarrow> (Inl e, st2)
                             | (Inr hits, st2) \<Rightarrow>
                                 (case hit_refs hits of
                                    Inl e \<Rightarrow> (Inl e, st2)
                                  | Inr found \<Rightarrow>
                                      (Inr (Some (org_should, valid_refs0 @ valid @ found)),
                                       st2))))))"

text \<open>\<^verbatim>\<open>Client.get_id_markings(user_id, index_alias)\<close>.\<close>

definition get_id_markings ::
  "env \<Rightarrow> es \<Rightarrow> string \<Rightarrow> string \<Rightarrow> (error + gim_result) \<times> es" where
  "get_id_markings env st user_id index_alias =
     (case md_time_index env st user_id index_alias of
        (md_alias_root, md_alias_date) \<Rightarrow>
          (let md_alias_name = md_alias_root @ ''--'' @ md_alias_date in
           case es_exists_alias st md_alias_name of
             (True, st1) \<Rightarrow> (Inr (GAlias md_alias_name), st1)
           | (False, st1) \<Rightarrow>
               (case get_object env (es_delete_alias st1 md_alias_root)
                       (identity_id env) (os_group_id env) of
                  (Inl e, st3) \<Rightarrow> (Inl e, st3)
                | (Inr None, st3) \<Rightarrow> (Inl TypeError, st3)
                | (Inr (Some os_group), st3) \<Rightarrow>
                    (case map_of os_group ''object_refs'' of
                       None \<Rightarrow> (Inl KeyError, st3)
                     | Some os_list \<Rightarrow>
                         (case os_refs (py_iter os_list) of
                            Inl e \<Rightarrow> (Inl e, st3)
                          | Inr os_valid \<Rightarrow>
                              (case build_refs env st3 user_id
                                      (Bool [] [] [ExistsField ''object_marking_refs''] []
                                       # os_valid) of
                                 (Inl e, st4) \<Rightarrow> (Inl e, st4)
                               | (Inr None, st4) \<Rightarrow> (Inr GFalse, st4)
                               | (Inr (Some (org_should, valid_refs)), st4) \<Rightarrow>
                                   (case es_cat_aliases st4 index_alias of
                                      (alias_mapping, st5) \<Rightarrow>
                                        (case es_put_alias st5 alias_mapping md_alias_name
                                                (Bool [] valid_refs [] []) of
                                           (Inl e, st6) \<Rightarrow> (Inl e, st6)
                                         | (Inr u, st6) \<Rightarrow>
                                             (Inr (GAlias md_alias_name), st6)))))))))"

text \<open>\<^verbatim>\<open>Client.search\<close> and \<^verbatim>\<open>Client.get_molecule\<close> themselves.\<close>

definition search ::
  "env \<Rightarrow> es \<Rightarrow> string \<Rightarrow> schema_arg \<Rightarrow> bool option \<Rightarrow> kwargs \<Rightarrow> (error + source list) \<times> es" where
  "search env = search_gen (get_id_markings env) env"

definition get_molecule ::
  "env \<Rightarrow> es \<Rightarrow> string \<Rightarrow> string list \<Rightarrow> pyval \<Rightarrow> bool option \<Rightarrow> query option \<Rightarrow>
   bool option \<Rightarrow> bool option \<Rightarrow> (error + mol_result) \<times> es" where
  "get_molecule env = get_molecule_gen (search env) env"

section \<open>What the traces and the rounds are asked about\<close>

text \<open>The schemas of the calls of \<^verbatim>\<open>Client.search\<close> in a trace, in order, and how
  often \<^verbatim>\<open>Client.search\<close> has been called for the clause \<open>c\<close>.\<close>

fun searched :: "event list \<Rightarrow> schema_arg list" where
  "searched [] = []"
| "searched (ClientSearch u s # es) = s # searched es"
| "searched (e # es) = searched es"

definition clause_queries :: "query \<Rightarrow> es \<Rightarrow> nat" where
  "clause_queries c st = count_list (searched (trace st)) (SClause c)"

fun clause_search :: "schema_arg \<Rightarrow> bool" where
  "clause_search (SClause c) = True"
| "clause_search s = False"

text \<open>\<open>quiet st st'\<close>: from \<open>st\<close> to \<open>st'\<close> the trace has only grown, by no search
  for a clause. \<open>appends st st'\<close>: moreover nothing but the trace has changed.\<close>

definition quiet :: "es \<Rightarrow> es \<Rightarrow> bool" where
  "quiet st st' =
     (\<exists>new. trace st' = trace st @ new \<and> filter clause_search (searched new) = [])"

definition appends :: "es \<Rightarrow> es \<Rightarrow> bool" where
  "appends st st' =
     (\<exists>new. st' = st\<lparr>trace := trace st @ new\<rparr> \<and> filter clause_search (searched new) = [])"

text \<open>\<open>marked c cs check_lst\<close>: at every place of the clause \<open>c\<close> in the schema
  \<open>cs\<close>, the check list holds \<^verbatim>\<open>True\<close>.\<close>

definition marked :: "query \<Rightarrow> query list \<Rightarrow> bool list \<Rightarrow> bool" where
  "marked c cs check_lst =
     list_all (\<lambda>j. cs ! j = c \<longrightarrow> j < length check_lst \<and> check_lst ! j) [0..<length cs]"

text \<open>
  \<open>rounds_grown \<dots> k ids check_lst st\<close>: the traversal that starts a round with
  \<open>ids\<close>, \<open>check_lst\<close> and \<open>st\<close> runs \<open>k\<close> rounds in a row without an exception, each
  ending with \<^verbatim>\<open>new_len != old_len\<close> (the test by which the code tells that the
  frontier has grown); the result is the identifiers, the check list and the state
  after the last of them.
\<close>

fun rounds_grown ::
  "(es \<Rightarrow> string \<Rightarrow> schema_arg \<Rightarrow> bool option \<Rightarrow> kwargs \<Rightarrow> (error + source list) \<times> es) \<Rightarrow>
   env \<Rightarrow> string \<Rightarrow> string \<Rightarrow> bool \<Rightarrow> bool \<Rightarrow> nat \<Rightarrow> string list \<Rightarrow> bool list \<Rightarrow> es \<Rightarrow>
   (string list \<times> bool list \<times> es) option" where
  "rounds_grown srch env user_id schema_name pivot md 0 ids check_lst st =
     Some (ids, check_lst, st)"
| "rounds_grown srch env user_id schema_name pivot md (Suc k) ids check_lst st =
     (case mol_round srch env user_id schema_name pivot md ids check_lst st of
        (Inl e, st1) \<Rightarrow> None
      | (Inr (check_lst1, ids1), st1) \<Rightarrow>
          if length (list_set env ids1) \<noteq> length ids
          then rounds_grown srch env user_id schema_name pivot md k
                 (list_set env ids1) check_lst1 st1
          else None)"

section \<open>The spec's words, and a small deployment to run the client on\<close>

text \<open>The stored distribution list as the spec describes it: sorted, de-duplicated,
  with the base classification's marking included.\<close>

definition spec_distribution_refs :: "string \<Rightarrow> string list \<Rightarrow> string list" where
  "spec_distribution_refs tlp_ref refs = sort (remdups (refs @ [tlp_ref]))"

fun query_ids :: "query \<Rightarrow> string list" where
  "query_ids (Match f v) = (if f = ''id'' then [v] else [])"
| "query_ids (ExistsField f) = []"
| "query_ids (QueryString fs q) = []"
| "query_ids (Bool must should must_not filt) =
     concat (map query_ids must) @ concat (map query_ids should)"

fun has_query_string :: "query \<Rightarrow> bool" where
  "has_query_string (QueryString fs q) = True"
| "has_query_string (Bool must should must_not filt) =
     (list_ex has_query_string must \<or> list_ex has_query_string should)"
| "has_query_string q = False"

fun filter_clauses :: "query \<Rightarrow> query list" where
  "filter_clauses (Bool must should must_not [Bool m clauses n f]) = clauses"
| "filter_clauses q = []"

fun field_parts :: "jval \<Rightarrow> string list" where
  "field_parts (JStr s) = (case part1 s of Inl e \<Rightarrow> [] | Inr p \<Rightarrow> [p])"
| "field_parts (JList xs) =
     concat (map (\<lambda>s. case part1 s of Inl e \<Rightarrow> [] | Inr p \<Rightarrow> [p]) xs)"

definition touches :: "string list \<Rightarrow> source \<Rightarrow> bool" where
  "touches frontier d =
     list_ex (\<lambda>(k, v). list_ex (\<lambda>p. p \<in> set frontier) (field_parts v)) d"

fun satisfies :: "source \<Rightarrow> query \<Rightarrow> bool" where
  "satisfies d (Match f v) = (map_of d f = Some (JStr v))"
| "satisfies d q = False"

definition is_ref_field :: "string \<Rightarrow> bool" where
  "is_ref_field k =
     (k = ''id'' \<or> drop (length k - 4) k = ''_ref'' \<or> drop (length k - 5) k = ''_refs'')"

text \<open>
  A store for the examples, holding the documents \<open>ds\<close>. A search finds the
  documents one of whose fields holds an identifier of the query (every document,
  when the query names no identifier and has no query string), among those that
  satisfy a clause of the schema filter; it answers with the whole document for
  \<^verbatim>\<open>hits.hits._source\<close> and with the identifier and reference fields otherwise.
\<close>

definition graph_hits :: "source list \<Rightarrow> es \<Rightarrow> es_request \<Rightarrow> error + source list" where
  "graph_hits ds st req =
     (case req_body req of
        None \<Rightarrow> Inr ds
      | Some q \<Rightarrow>
          Inr (map (\<lambda>d. if req_filter_path req = [''hits.hits._source''] then d
                         else filter (\<lambda>(k, v). is_ref_field k) d)
                 (filter (\<lambda>d. (touches (query_ids q) d \<or>
                                (query_ids q = [] \<and> \<not> has_query_string q)) \<and>
                               (filter_clauses q = [] \<or> list_ex (satisfies d) (filter_clauses q)))
                    ds)))"

definition identity_doc :: "string \<Rightarrow> string \<Rightarrow> source" where
  "identity_doc i cls =
     [(''id'', JStr i), (''type'', JStr ''identity''), (''identity_class'', JStr cls)]"

definition part_of :: "string \<Rightarrow> string \<Rightarrow> string \<Rightarrow> source" where
  "part_of i src tgt =
     [(''id'', JStr i), (''type'', JStr ''relationship''),
      (''relationship_type'', JStr ''part-of''),
      (''source_ref'', JStr src), (''target_ref'', JStr tgt)]"

text \<open>The org chart of the spec's example: \<^verbatim>\<open>identity--a1\<close> is part of
  \<^verbatim>\<open>identity--org1\<close>, which is part of \<^verbatim>\<open>identity--org2\<close>.\<close>

definition org_chart :: "source list" where
  "org_chart =
     [identity_doc ''identity--a1'' ''individual'',
      identity_doc ''identity--org1'' ''organization'',
      identity_doc ''identity--org2'' ''organization'',
      part_of ''relationship--r1'' ''identity--a1'' ''identity--org1'',
      part_of ''relationship--r2'' ''identity--org1'' ''identity--org2'']"

text \<open>The identifiers of that org chart that a traversal from \<^verbatim>\<open>identity--a1\<close>
  ends with, and the list that a round collects when it starts from them.\<close>

definition org_closure :: "string list" where
  "org_closure = [''relationship--r1'', ''identity--a1'', ''relationship--r2'',
                  ''identity--org1'', ''identity--org2'']"

definition org_round_ids :: "string list" where
  "org_round_ids =
     org_closure @
     [''identity--a1'', ''identity--org1'', ''identity--org2'',
      ''relationship--r1'', ''identity--a1'', ''identity--org1'',
      ''relationship--r2'', ''identity--org1'', ''identity--org2'']"

text \<open>A chain of four organizations above \<^verbatim>\<open>identity--a1\<close>.\<close>

definition deep_chart :: "source list" where
  "deep_chart =
     [part_of ''relationship--r1'' ''identity--a1'' ''identity--org1'',
      part_of ''relationship--r2'' ''identity--org1'' ''identity--org2'',
      part_of ''relationship--r3'' ''identity--org2'' ''identity--org3'',
      part_of ''relationship--r4'' ''identity--org3'' ''identity--org4'']"

definition org_schema :: "query list" where
  "org_schema = [Match ''type'' ''identity'', Match ''type'' ''relationship'']"

definition incident_schema :: "query list" where
  "incident_schema = [Match ''type'' ''attack-pattern'', Match ''type'' ''relationship'']"

definition os_group_doc :: source where
  "os_group_doc =
     [(''id'', JStr ''grouping--os''), (''object_refs'', JList [''marking-definition--white''])]"

text \<open>
  A deployment for the examples: the hash keeps the letters and digits of its seed,
  a view is named after the index and the user, the day is counted in \<^verbatim>\<open>+\<close> signs, the
  store holds the org chart and the open-group object and accepts every write.
\<close>

definition demo_env :: env where
  "demo_env =
     \<lparr>uuid5 = filter (\<lambda>c. c \<in> set ''abcdefghijklmnopqrstuvwxyz0123456789''),
      alias_root = (\<lambda>user_id old_alias. old_alias @ ''-'' @ user_id),
      alias_date = (\<lambda>d. ''day'' @ replicate d (CHR ''+'')),
      get_schema = (\<lambda>n. if n = ''org'' then Some org_schema
                          else if n = ''incident'' then Some incident_schema else None),
      get_all_schemas = [org_schema, incident_schema],
      stix_valid = (\<lambda>m. True),
      es_hits = graph_hits org_chart,
      es_mget = (\<lambda>st ks. map (\<lambda>k. if k = (''grouping'', ''os'') then Some os_group_doc
                                      else None) ks),
      write_ok = (\<lambda>idx i. True),
      list_set = remdups,
      identity_id = ''identity--system'',
      os_group_id = ''grouping--os'',
      pii_marking_id = ''marking-definition--pii''\<rparr>"

text \<open>The example deployment over the chain of four organizations.\<close>

definition deep_env :: env where
  "deep_env = demo_env\<lparr>es_hits := graph_hits deep_chart\<rparr>"

definition empty_es :: es where
  "empty_es = \<lparr>docs = (\<lambda>k. None), aliases = (\<lambda>n. None), today = 0, trace = []\<rparr>"

text \<open>A call of \<^verbatim>\<open>search\<close> with no keyword argument.\<close>

definition no_kwargs :: kwargs where
  "no_kwargs = \<lparr>kw_index = None, kw_size = None, kw_body = None, kw_filter_path = [],
                kw_source_excludes = []\<rparr>"

text \<open>The state with the logical index \<^verbatim>\<open>intel\<close> over two concrete indices.\<close>

definition intel_es :: es where
  "intel_es =
     empty_es\<lparr>aliases := [''intel'' \<mapsto> \<lparr>alias_indices = [''identity-1'', ''relationship-1''],
                                       alias_filter = Bool [] [] [] []\<rparr>]\<rparr>"

text \<open>The TLP+ marking that user \<^verbatim>\<open>identity--u\<close> creates on TLP AMBER.\<close>

definition demo_marking :: "string list \<Rightarrow> string \<Rightarrow> marking_definition" where
  "demo_marking refs h =
     \<lparr>md_id = ''marking-definition--'' @ h, created_by_ref = ''identity--u'',
      definition_type = ''tlp-plus'', tlp_marking_def_ref = TLP_AMBER_id,
      distribution_refs = refs\<rparr>"

section \<open>Properties\<close>

subsection \<open>Strings and identifiers\<close>

lemma split_dd_nonempty: "split_dd acc s \<noteq> []"
  by (induction acc s rule: split_dd.induct) auto

lemma part1_md_uuid:
  "part1 (get_deterministic_uuid env ''marking-definition--'' seed) =
   Inr (hd (py_split (uuid5 env seed)))"
  using split_dd_nonempty[of "[]" "uuid5 env seed"]
  by (cases "split_dd [] (uuid5 env seed)")
     (simp_all add: part1_def py_split_def get_deterministic_uuid_def)

lemma part0_md_uuid:
  "part0 (get_deterministic_uuid env ''marking-definition--'' seed) = ''marking-definition''"
  by (simp add: part0_def py_split_def get_deterministic_uuid_def)

lemmas set_tlpplus_unfold =
  set_tlpplus_def part1_md_uuid part0_md_uuid Let_def es_exists_def store_objects_def
  store_object_def es_index_def log_def

lemmas demo_tlpplus_eval =
  set_tlpplus_def demo_env_def empty_es_def part0_def py_split_def part1_def
  get_deterministic_uuid_def py_str_list_def py_repr_def Let_def es_exists_def
  store_objects_def store_object_def es_index_def log_def demo_marking_def

text \<open>How the examples are run: by unfolding the definitions.\<close>

lemmas demo_eval =
  demo_env_def deep_env_def intel_es_def empty_es_def no_kwargs_def
  org_chart_def deep_chart_def org_schema_def incident_schema_def os_group_doc_def
  identity_doc_def part_of_def org_closure_def org_round_ids_def
  graph_hits_def touches_def is_ref_field_def
  part0_def part1_def py_split_def log_def store_of_def
  es_search_def search_gen_def search0_def search_def
  mol_round_def mol_schemas_def mol_kwargs_def mol_query_def mol_q_str_def hit_ids_def
  mol_finish_def final_kwargs_def get_molecule_def get_molecule_gen_def mol_loop.simps
  get_objects_def get_object_def md_time_index_def starts_with_def es_exists_alias_def
  es_delete_alias_def es_cat_aliases_def es_put_alias_def org_query_def md_search_kwargs_def
  build_refs_def get_id_markings_def Let_def

text \<open>
  What the loop over the objects of the org chart adds to \<^verbatim>\<open>org_should\<close>: the
  identifier of every object whose \<^verbatim>\<open>type\<close> field is \<^verbatim>\<open>organization\<close>; nothing
  for a list of objects none of which has that type.
\<close>

lemma org_loop_should:
  "org_loop pii orgs = Inr (should, valid) \<Longrightarrow>
   should = concat (map (\<lambda>org. case map_of org ''id'' of
                                  Some (JStr i) \<Rightarrow>
                                    (case part1 i of
                                       Inr p \<Rightarrow> if map_of org ''type'' = Some (JStr ''organization'')
                                                then [Match ''definition.distribution_refs'' p]
                                                else []
                                     | Inl e \<Rightarrow> [])
                                | _ \<Rightarrow> []) orgs)"
proof (induction orgs arbitrary: should valid)
  case Nil
  then show ?case by simp
next
  case (Cons org orgs)
  then show ?case
    by (auto split: option.splits jval.splits sum.splits prod.splits if_splits)
qed

lemma org_loop_no_type_organization:
  assumes "org_loop pii orgs = Inr (should, valid)"
    and "\<forall>org \<in> set orgs. map_of org ''type'' \<noteq> Some (JStr ''organization'')"
  shows "should = []"
  using org_loop_should[OF assms(1)] assms(2)
  by (auto split: option.splits jval.splits sum.splits)

text \<open>
  C6 (the code at the failing input). For the user \<^verbatim>\<open>identity--a1\<close>, part of
  \<^verbatim>\<open>identity--org1\<close>, itself part of \<^verbatim>\<open>identity--org2\<close>, the org-chart traversal
  returns both organizations (STIX identities: \<^verbatim>\<open>type\<close> is \<^verbatim>\<open>identity\<close>, the class
  is in \<^verbatim>\<open>identity_class\<close>), and \<^verbatim>\<open>org_should\<close>, by which the marking definitions are
  searched, holds the user's identifier alone.
\<close>

theorem org_should_leaves_organizations_out:
  "fst (get_molecule_gen (search0 demo_env) demo_env intel_es ''identity--a1'' [''identity--a1'']
          (PyStr ''org'') (Some True) (Some org_query) None (Some False)) =
     Inr (MObjs org_chart) \<and>
   map_sum id (map_option fst) (fst (build_refs demo_env intel_es ''identity--a1'' [])) =
     Inr (Some [Match ''definition.distribution_refs'' ''a1''])"
proof -
  have "fst (get_molecule_gen (search0 demo_env) demo_env intel_es ''identity--a1''
          [''identity--a1''] (PyStr ''org'') (Some True) (Some org_query) None (Some False)) =
     Inr (MObjs org_chart)"
    by (simp add: demo_eval)
  moreover have
    "map_sum id (map_option fst) (fst (build_refs demo_env intel_es ''identity--a1'' [])) =
       Inr (Some [Match ''definition.distribution_refs'' ''a1''])"
    by (simp add: demo_eval)
  ultimately show ?thesis by (intro conjI)
qed

subsection \<open>The marking manager\<close>

text \<open>
  A second call with the same list, in the same order, on the state the first call
  left: it finds the document and returns the same identifier, and the store's
  documents stay as they are.
\<close>

lemma set_tlpplus_same_list_again:
  assumes "set_tlpplus env st user_id tlp_ref (PyList refs) = (Inr r, arg', st')"
    and "r \<noteq> TFalse"
  shows "set_tlpplus env st' user_id tlp_ref (PyList refs) =
           (Inr (TId (get_deterministic_uuid env ''marking-definition--'' (py_str_list refs))),
            PyList (refs @ [tlp_ref]),
            log (EsExists ''marking-definition'' (hd (py_split (uuid5 env (py_str_list refs))))) st')"
  using assms
  by (auto simp: set_tlpplus_unfold split: if_splits sum.splits bool.splits prod.splits)

text \<open>
  C1 (the code at the failing input). Two calls with the same base classification
  and the same two identities, in a different order on the second call: the seed of
  the identifier is \<^verbatim>\<open>str(ref_list)\<close> of the list as given, so the second call does
  not find the first marking; it returns another identifier and stores a second
  document.
\<close>

theorem set_tlpplus_other_order_second_marking:
  "fst (set_tlpplus demo_env empty_es ''identity--u'' TLP_AMBER_id
          (PyList [''identity--a'', ''identity--b''])) =
     Inr (TCreated ''marking-definition--identityaidentityb''
            (demo_marking [''identity--a'', ''identity--b''] ''identityaidentityb'')) \<and>
   fst (set_tlpplus demo_env
          (snd (snd (set_tlpplus demo_env empty_es ''identity--u'' TLP_AMBER_id
                       (PyList [''identity--a'', ''identity--b'']))))
          ''identity--u'' TLP_AMBER_id (PyList [''identity--b'', ''identity--a''])) =
     Inr (TCreated ''marking-definition--identitybidentitya''
            (demo_marking [''identity--b'', ''identity--a''] ''identitybidentitya''))"
  by (simp add: demo_tlpplus_eval)

text \<open>
  C2 (as amended). A call that creates the marking stores, under the identifier
  derived from the list as the caller gave it, a marking whose
  \<^verbatim>\<open>distribution_refs\<close> is that same list (the copy taken before the base marking is
  appended); the base classification is its \<^verbatim>\<open>tlp_marking_def_ref\<close>.
\<close>

theorem set_tlpplus_stores_callers_list:
  assumes "set_tlpplus env st user_id tlp_ref (PyList refs) = (Inr (TCreated i md), arg', st')"
  shows "i = get_deterministic_uuid env ''marking-definition--'' (py_str_list refs) \<and>
         md_id md = i \<and> tlp_marking_def_ref md = tlp_ref \<and> distribution_refs md = refs \<and>
         docs st (''marking-definition'', hd (py_split (uuid5 env (py_str_list refs)))) = None \<and>
         docs st' (''marking-definition'', hd (py_split (uuid5 env (py_str_list refs)))) = Some md"
  using assms
  by (auto simp: set_tlpplus_unfold split: if_splits sum.splits bool.splits prod.splits)

theorem set_tlpplus_stores_callers_list_witness:
  "fst (set_tlpplus demo_env empty_es ''identity--u'' TLP_AMBER_id
          (PyList [''identity--b'', ''identity--a''])) =
     Inr (TCreated ''marking-definition--identitybidentitya''
            (demo_marking [''identity--b'', ''identity--a''] ''identitybidentitya'')) \<and>
   distribution_refs (demo_marking [''identity--b'', ''identity--a''] ''identitybidentitya'') =
     [''identity--b'', ''identity--a''] \<and>
   docs (snd (snd (set_tlpplus demo_env empty_es ''identity--u'' TLP_AMBER_id
                     (PyList [''identity--b'', ''identity--a'']))))
     (''marking-definition'', ''identitybidentitya'') =
     Some (demo_marking [''identity--b'', ''identity--a''] ''identitybidentitya'')"
proof -
  let ?c = "set_tlpplus demo_env empty_es ''identity--u'' TLP_AMBER_id
              (PyList [''identity--b'', ''identity--a''])"
  have r: "fst ?c = Inr (TCreated ''marking-definition--identitybidentitya''
                      (demo_marking [''identity--b'', ''identity--a''] ''identitybidentitya''))"
    by (simp add: demo_tlpplus_eval)
  then have "?c = (Inr (TCreated ''marking-definition--identitybidentitya''
                      (demo_marking [''identity--b'', ''identity--a''] ''identitybidentitya'')),
                   fst (snd ?c), snd (snd ?c))"
    by (metis prod.collapse)
  from set_tlpplus_stores_callers_list[OF this] r show ?thesis
    by (simp add: demo_env_def py_str_list_def py_repr_def py_split_def)
qed

text \<open>
  C2 (counterexample). The list that is stored is the caller's, not the sorted,
  de-duplicated list with the base marking: for \<^verbatim>\<open>['identity--b', 'identity--a']\<close>
  on TLP AMBER the two differ.
\<close>

theorem stored_refs_differ_from_sorted_with_base:
  "fst (set_tlpplus demo_env empty_es ''identity--u'' TLP_AMBER_id
          (PyList [''identity--b'', ''identity--a''])) =
     Inr (TCreated ''marking-definition--identitybidentitya''
            (demo_marking [''identity--b'', ''identity--a''] ''identitybidentitya'')) \<and>
   distribution_refs (demo_marking [''identity--b'', ''identity--a''] ''identitybidentitya'') \<noteq>
     spec_distribution_refs TLP_AMBER_id [''identity--b'', ''identity--a'']"
proof -
  have "TLP_AMBER_id \<in> set (spec_distribution_refs TLP_AMBER_id [''identity--b'', ''identity--a''])"
    by (simp add: spec_distribution_refs_def)
  moreover have "TLP_AMBER_id \<notin>
      set (distribution_refs (demo_marking [''identity--b'', ''identity--a''] ''identitybidentitya''))"
    by (simp add: demo_marking_def TLP_AMBER_id_def)
  ultimately have "distribution_refs (demo_marking [''identity--b'', ''identity--a''] ''identitybidentitya'') \<noteq>
     spec_distribution_refs TLP_AMBER_id [''identity--b'', ''identity--a'']"
    by metis
  moreover have "fst (set_tlpplus demo_env empty_es ''identity--u'' TLP_AMBER_id
          (PyList [''identity--b'', ''identity--a''])) =
     Inr (TCreated ''marking-definition--identitybidentitya''
            (demo_marking [''identity--b'', ''identity--a''] ''identitybidentitya''))"
    by (simp add: demo_tlpplus_eval)
  ultimately show ?thesis by simp
qed

text \<open>
  C9. After every call that returns an identifier (alone, or with the new marking),
  the caller's list has the base marking's identifier appended at its end, while the
  identifier is the hash of the list as it was before, and the marking that is
  created and stored holds the list as it was before.
\<close>

theorem set_tlpplus_appends_to_callers_list:
  assumes "set_tlpplus env st user_id tlp_ref (PyList refs) = (Inr r, arg', st')"
    and "r \<noteq> TFalse"
  shows "arg' = PyList (refs @ [tlp_ref]) \<and>
         (case r of
            TFalse \<Rightarrow> False
          | TId i \<Rightarrow> i = get_deterministic_uuid env ''marking-definition--'' (py_str_list refs)
          | TCreated i md \<Rightarrow>
              i = get_deterministic_uuid env ''marking-definition--'' (py_str_list refs) \<and>
              md_id md = i \<and> distribution_refs md = refs \<and>
              docs st' (''marking-definition'', hd (py_split (uuid5 env (py_str_list refs)))) =
                Some md)"
  using assms
  by (auto simp: set_tlpplus_unfold split: if_splits sum.splits bool.splits prod.splits)

theorem set_tlpplus_appends_to_callers_list_witness:
  "fst (set_tlpplus demo_env empty_es ''identity--u'' TLP_RED_id (PyList [''identity--a''])) =
     Inr (TCreated ''marking-definition--identitya''
            ((demo_marking [''identity--a''] ''identitya'')\<lparr>tlp_marking_def_ref := TLP_RED_id\<rparr>)) \<and>
   fst (snd (set_tlpplus demo_env empty_es ''identity--u'' TLP_RED_id (PyList [''identity--a'']))) =
     PyList [''identity--a'', TLP_RED_id]"
proof -
  let ?c = "set_tlpplus demo_env empty_es ''identity--u'' TLP_RED_id (PyList [''identity--a''])"
  let ?r = "TCreated ''marking-definition--identitya''
              ((demo_marking [''identity--a''] ''identitya'')\<lparr>tlp_marking_def_ref := TLP_RED_id\<rparr>)"
  have r: "fst ?c = Inr ?r"
    by (simp add: demo_tlpplus_eval)
  then have c: "?c = (Inr ?r, fst (snd ?c), snd (snd ?c))"
    by (metis prod.collapse)
  have "?r \<noteq> TFalse" by simp
  from set_tlpplus_appends_to_callers_list[OF c this] r show ?thesis
    by simp
qed

subsection \<open>\<^verbatim>\<open>Client.search\<close>\<close>





subsection \<open>The traversal\<close>

text \<open>
  C8 (as amended). \<^verbatim>\<open>get_molecule\<close> returns \<^verbatim>\<open>False\<close> at once, with no call to the
  store and no result, when the schema name is not a string.
\<close>

theorem get_molecule_schema_not_str:
  "get_molecule env st user_id stix_ids (PyList xs) objs query_arg pivot md_arg =
     (Inr MFalse, st) \<and>
   get_molecule env st user_id stix_ids PyOther objs query_arg pivot md_arg = (Inr MFalse, st)"
  by (simp add: get_molecule_def get_molecule_gen_def)

text \<open>
  C8 (counterexample). With an empty seed list and a schema name that is a string
  the traversal runs: on the example store it searches twice (the round, and the
  search for the objects) and returns every document of the schema.
\<close>

theorem get_molecule_empty_seed_runs:
  "fst (get_molecule demo_env empty_es ''identity--a1'' [] (PyStr ''org'') (Some True) None None
          (Some False)) = Inr (MObjs org_chart) \<and>
   searched (trace (snd (get_molecule demo_env empty_es ''identity--a1'' [] (PyStr ''org'')
                           (Some True) None None (Some False)))) = [SName ''org'', SName ''org'']"
  by code_simp

text \<open>
  The test \<^verbatim>\<open>new_len == old_len\<close>. A round only appends to \<^verbatim>\<open>ids\<close>; when the round
  starts from a list without duplicates (a seed given as a set, or the list of any
  later round) and \<^verbatim>\<open>list(set(ids))\<close> lists every element once, the lengths are
  equal exactly when the round has found no new identifier.
\<close>

lemma mol_clauses_ids:
  "mol_clauses srch pivot schemas count cl ids st = (Inr (cl1, ids1), st1) \<Longrightarrow>
   \<exists>new. ids1 = ids @ new"
proof (induction schemas arbitrary: count cl ids st)
  case Nil
  then show ?case by simp
next
  case (Cons s rest)
  then show ?case
    by (fastforce split: if_splits prod.splits sum.splits)
qed

lemma mol_round_ids:
  "mol_round srch env u name pivot md ids cl st = (Inr (cl1, ids1), st1) \<Longrightarrow>
   \<exists>new. ids1 = ids @ new"
  by (auto simp: mol_round_def split: sum.splits dest: mol_clauses_ids)

lemma frontier_test:
  assumes "mol_round srch env u name pivot md ids cl st = (Inr (cl1, ids1), st1)"
    and "distinct ids"
    and "distinct (list_set env ids1)" and "set (list_set env ids1) = set ids1"
  shows "(length (list_set env ids1) = length ids) = (set ids1 = set ids)"
proof -
  from mol_round_ids[OF assms(1)] have sub: "set ids \<subseteq> set ids1" by auto
  have l1: "length (list_set env ids1) = card (set ids1)"
    using assms(3,4) distinct_card by fastforce
  have l0: "length ids = card (set ids)"
    using assms(2) distinct_card by fastforce
  show ?thesis
  proof
    assume "length (list_set env ids1) = length ids"
    with l1 l0 have "card (set ids1) = card (set ids)" by simp
    with sub show "set ids1 = set ids"
      by (metis card_subset_eq List.finite_set)
  next
    assume "set ids1 = set ids"
    with l1 l0 show "length (list_set env ids1) = length ids" by simp
  qed
qed


lemma mol_loop_aborts:
  "failed \<le> 3 \<Longrightarrow>
   rounds_grown srch env u name pivot md (4 - failed) ids cl st = Some (ids4, cl4, st4) \<Longrightarrow>
   mol_loop srch env u name objs q pivot md failed ids cl st = (Inr MFalse, st4)"
proof (induction srch env u name objs q pivot md failed ids cl st rule: mol_loop.induct)
  case (1 srch env u name objs q pivot md failed ids cl st)
  from \<open>failed \<le> 3\<close> have k: "4 - failed = Suc (3 - failed)" by simp
  from "1.prems"(2) obtain cl1 ids1 st1 where
    r: "mol_round srch env u name pivot md ids cl st = (Inr (cl1, ids1), st1)"
    and g: "length (list_set env ids1) \<noteq> length ids"
    and rest: "rounds_grown srch env u name pivot md (3 - failed) (list_set env ids1) cl1 st1 =
                 Some (ids4, cl4, st4)"
    unfolding k by (auto split: prod.splits sum.splits if_splits)
  show ?case
  proof (cases "failed = 3")
    case True
    with rest have "st4 = st1" by simp
    with r g True show ?thesis by (subst mol_loop.simps) simp
  next
    case False
    with \<open>failed \<le> 3\<close> have f: "\<not> failed + 1 > 3" "failed + 1 \<le> 3" "4 - (failed + 1) = 3 - failed"
      by simp_all
    from "1.IH"[OF r[symmetric] refl refl g f(1) f(2)] rest f(3)
    have "mol_loop srch env u name objs q pivot md (failed + 1) (list_set env ids1) cl1 st1 =
            (Inr MFalse, st4)" by simp
    with r g f(1) show ?thesis by (subst mol_loop.simps) simp
  qed
qed

text \<open>
  C4. When the frontier has grown, by the code's test, in each of the first four
  rounds of a traversal, \<^verbatim>\<open>get_molecule\<close> returns \<^verbatim>\<open>False\<close> and stops there: the
  state it leaves is the state after the fourth round, and neither the identifiers
  collected nor any object is returned.
\<close>

theorem get_molecule_aborts_after_four_growths:
  assumes "rounds_grown (search env) env user_id name (default_true pivot_arg)
             (default_true md_arg) 4 stix_ids [] st = Some (ids4, check_lst4, st4)"
  shows "get_molecule env st user_id stix_ids (PyStr name) objs query_arg pivot_arg md_arg =
           (Inr MFalse, st4)"
  using mol_loop_aborts[of 0, simplified, OF assms]
  by (simp add: get_molecule_def get_molecule_gen_def)

theorem get_molecule_aborts_after_four_growths_witness:
  "map_option fst (rounds_grown (search deep_env) deep_env ''identity--a1'' ''org''
      (default_true None) (default_true (Some False)) 4 [''identity--a1''] [] empty_es) =
     Some [''relationship--r1'', ''identity--a1'', ''relationship--r2'', ''identity--org1'',
           ''relationship--r3'', ''identity--org2'', ''relationship--r4'', ''identity--org3'',
           ''identity--org4''] \<and>
   fst (get_molecule deep_env empty_es ''identity--a1'' [''identity--a1''] (PyStr ''org'')
          None None None (Some False)) = Inr MFalse"
proof -
  have g: "map_option fst (rounds_grown (search deep_env) deep_env ''identity--a1'' ''org''
      (default_true None) (default_true (Some False)) 4 [''identity--a1''] [] empty_es) =
     Some [''relationship--r1'', ''identity--a1'', ''relationship--r2'', ''identity--org1'',
           ''relationship--r3'', ''identity--org2'', ''relationship--r4'', ''identity--org3'',
           ''identity--org4'']"
    by code_simp
  then obtain ids4 cl4 st4 where
    "rounds_grown (search deep_env) deep_env ''identity--a1'' ''org''
      (default_true None) (default_true (Some False)) 4 [''identity--a1''] [] empty_es =
       Some (ids4, cl4, st4)"
    by (cases "rounds_grown (search deep_env) deep_env ''identity--a1'' ''org''
      (default_true None) (default_true (Some False)) 4 [''identity--a1''] [] empty_es") auto
  from get_molecule_aborts_after_four_growths[OF this, of None None]
  have "fst (get_molecule deep_env empty_es ''identity--a1'' [''identity--a1''] (PyStr ''org'')
          None None None (Some False)) = Inr MFalse"
    by simp
  with g show ?thesis by (intro conjI)
qed

lemma mol_loop_equal_lengths:
  assumes "mol_round srch env user_id name pivot md ids check_lst st =
             (Inr (check_lst1, ids1), st1)"
    and "length (list_set env ids1) = length ids"
  shows "mol_loop srch env user_id name objs query_arg pivot md failed ids check_lst st =
           mol_finish srch user_id name objs query_arg md (list_set env ids1) st1"
  using assms by (subst mol_loop.simps) simp

text \<open>
  C5 (as amended). A round that starts from a list of identifiers without
  duplicates and finds no new identifier ends the traversal. Without \<^verbatim>\<open>objs\<close> the
  result is the de-duplicated list of identifiers, and the state is the one the
  round left. With \<^verbatim>\<open>objs\<close> the result is the hits of one call of \<^verbatim>\<open>search\<close> for
  the named schema, whose query is "the identifier is one of these" and, when the
  caller gave a \<^verbatim>\<open>query\<close>, that query and "the identifier is one of these".
\<close>

theorem mol_loop_fixpoint:
  assumes "mol_round (search env) env user_id name pivot md ids check_lst st =
             (Inr (check_lst1, ids1), st1)"
    and "distinct ids"
    and "distinct (list_set env ids1)" and "set (list_set env ids1) = set ids1"
    and "set ids1 = set ids"
  shows "mol_loop (search env) env user_id name objs query_arg pivot md failed ids check_lst st =
           (if objs
            then (case id_parts (list_set env ids1) of
                    Inl e \<Rightarrow> (Inl e, st1)
                  | Inr parts \<Rightarrow>
                      (case search env st1 user_id (SName name) (Some md)
                              \<lparr>kw_index = None, kw_size = None,
                               kw_body = Some
                                 (case query_arg of
                                    None \<Rightarrow>
                                      Bool [Bool [] (map (Match ''id'') parts) [] []] [] [] []
                                  | Some qq \<Rightarrow>
                                      Bool [qq, Bool [] (map (Match ''id'') parts) [] []] [] [] []),
                               kw_filter_path = [''hits.hits._source''],
                               kw_source_excludes = []\<rparr> of
                         (Inl e, st2) \<Rightarrow> (Inl e, st2)
                       | (Inr hits, st2) \<Rightarrow> (Inr (MObjs hits), st2)))
            else (Inr (MIds (list_set env ids1)), st1))"
proof -
  from frontier_test[OF assms(1,2,3,4)] assms(5)
  have "length (list_set env ids1) = length ids" by simp
  note l = mol_loop_equal_lengths[OF assms(1) this]
  show ?thesis
    unfolding l mol_finish_def final_kwargs_def
    by (cases objs) (simp_all cong: sum.case_cong prod.case_cong option.case_cong)
qed

theorem mol_loop_fixpoint_witness:
  "fst (mol_round (search demo_env) demo_env ''identity--a1'' ''org'' True False
          org_closure [] empty_es) = Inr ([], org_round_ids) \<and>
   distinct org_closure \<and> distinct (list_set demo_env org_round_ids) \<and>
   set (list_set demo_env org_round_ids) = set org_round_ids \<and>
   set org_round_ids = set org_closure \<and>
   fst (mol_loop (search demo_env) demo_env ''identity--a1'' ''org'' True (Some org_query) True
          False 0 org_closure [] empty_es) = Inr (MObjs org_chart) \<and>
   last (trace (snd (mol_loop (search demo_env) demo_env ''identity--a1'' ''org'' True
                       (Some org_query) True False 0 org_closure [] empty_es))) =
     EsSearch
       \<lparr>req_index = IName ''intel'', req_size = 10000,
        req_body = Some
          (Bool [Bool [org_query,
                       Bool [] [Match ''id'' ''r1'', Match ''id'' ''a1'', Match ''id'' ''r2'',
                                Match ''id'' ''org1'', Match ''id'' ''org2''] [] []] [] [] []]
             [] [] [Bool [] org_schema [] []]),
        req_filter_path = [''hits.hits._source''], req_source_excludes = []\<rparr>"
proof -
  let ?r = "mol_round (search demo_env) demo_env ''identity--a1'' ''org'' True False
              org_closure [] empty_es"
  let ?l = "mol_loop (search demo_env) demo_env ''identity--a1'' ''org'' True (Some org_query)
              True False 0 org_closure [] empty_es"
  have a: "fst ?r = Inr ([], org_round_ids)"
    by (simp add: demo_eval)
  then have r: "?r = (Inr ([], org_round_ids), snd ?r)"
    by (metis prod.collapse)
  have d: "distinct org_closure"
    by (simp add: org_closure_def)
  have c: "list_set demo_env org_round_ids = org_closure"
    by (simp add: demo_env_def org_round_ids_def org_closure_def)
  have d1: "distinct (list_set demo_env org_round_ids)"
    unfolding c by (rule d)
  have s: "set org_round_ids = set org_closure"
    by (auto simp: org_round_ids_def org_closure_def)
  have s1: "set (list_set demo_env org_round_ids) = set org_round_ids"
    unfolding c s ..
  note e = mol_loop_fixpoint[OF r d d1 s1 s, of True "Some org_query" 0]
  have f: "fst ?l = Inr (MObjs org_chart)"
    unfolding e by (simp add: demo_eval)
  have t: "last (trace (snd ?l)) =
     EsSearch
       \<lparr>req_index = IName ''intel'', req_size = 10000,
        req_body = Some
          (Bool [Bool [org_query,
                       Bool [] [Match ''id'' ''r1'', Match ''id'' ''a1'', Match ''id'' ''r2'',
                                Match ''id'' ''org1'', Match ''id'' ''org2''] [] []] [] [] []]
             [] [] [Bool [] org_schema [] []]),
        req_filter_path = [''hits.hits._source''], req_source_excludes = []\<rparr>"
    unfolding e by (simp add: demo_eval)
  from a d d1 s1 s f t show ?thesis by (intro conjI)
qed

text \<open>
  C5 (counterexample). The seed list holds \<^verbatim>\<open>identity--zz\<close> twice and the store
  holds nothing about it: round 1 finds no identifier, so the set of identifiers has
  not grown, but the de-duplicated list is shorter than the seed list and the
  traversal runs a second round before it stops.
\<close>

theorem duplicate_seed_round_does_not_stop:
  "fst (mol_round (search demo_env) demo_env ''identity--a1'' ''org'' True False
          [''identity--zz'', ''identity--zz''] [] empty_es) =
     Inr ([], [''identity--zz'', ''identity--zz'']) \<and>
   list_set demo_env [''identity--zz'', ''identity--zz''] = [''identity--zz''] \<and>
   mol_loop (search demo_env) demo_env ''identity--a1'' ''org'' False None True False 0
       [''identity--zz'', ''identity--zz''] [] empty_es \<noteq>
     (Inr (MIds [''identity--zz'']),
      snd (mol_round (search demo_env) demo_env ''identity--a1'' ''org'' True False
             [''identity--zz'', ''identity--zz''] [] empty_es)) \<and>
   searched (trace (snd (get_molecule demo_env empty_es ''identity--a1''
                           [''identity--zz'', ''identity--zz''] (PyStr ''org'') None None None
                           (Some False)))) = [SName ''org'', SName ''org'']"
proof -
  let ?seed = "[''identity--zz'', ''identity--zz'']"
  let ?r = "mol_round (search demo_env) demo_env ''identity--a1'' ''org'' True False ?seed []
              empty_es"
  let ?l = "mol_loop (search demo_env) demo_env ''identity--a1'' ''org'' False None True False 0
              ?seed [] empty_es"
  have a: "fst ?r = Inr ([], ?seed)"
    by (simp add: demo_eval)
  have b: "list_set demo_env ?seed = [''identity--zz'']"
    by (simp add: demo_env_def)
  have t1: "length (trace (snd ?r)) = 2"
    by (simp add: demo_eval)
  have t2: "length (trace (snd ?l)) = 4"
    by (simp add: demo_eval)
  have c: "?l \<noteq> (Inr (MIds [''identity--zz'']), snd ?r)"
  proof
    assume "?l = (Inr (MIds [''identity--zz'']), snd ?r)"
    then have "snd ?l = snd ?r" by simp
    then have "length (trace (snd ?l)) = length (trace (snd ?r))" by simp
    with t1 t2 show False by simp
  qed
  have d: "searched (trace (snd (get_molecule demo_env empty_es ''identity--a1'' ?seed
                           (PyStr ''org'') None None None (Some False)))) =
             [SName ''org'', SName ''org'']"
    by (simp add: demo_eval)
  from a b c d show ?thesis by (intro conjI)
qed

subsection \<open>Calls that only read\<close>

text \<open>
  The calls that \<^verbatim>\<open>get_id_markings\<close> makes with \<^verbatim>\<open>_md=False\<close> leave the store as it
  is: they add to the trace, and no search for a single clause.
\<close>

lemma searched_append: "searched (xs @ ys) = searched xs @ searched ys"
  by (induction xs rule: searched.induct) auto

lemma appends_refl: "appends st st"
  by (auto simp: appends_def intro: exI[of _ "[]"])

lemma appends_trans: "appends a b \<Longrightarrow> appends b c \<Longrightarrow> appends a c"
  by (auto simp: appends_def searched_append)

lemma appends_log: "filter clause_search (searched [e]) = [] \<Longrightarrow> appends st (log e st)"
  by (auto simp: appends_def log_def)

lemma appends_same:
  "appends st st' \<Longrightarrow> aliases st' = aliases st \<and> docs st' = docs st \<and> today st' = today st"
  by (auto simp: appends_def)

lemma appends_quiet: "appends st st' \<Longrightarrow> quiet st st'"
  by (auto simp: appends_def quiet_def)

lemma es_search_appends: "appends st (snd (es_search env st req))"
  by (auto simp: es_search_def split: sum.splits intro!: appends_log)

lemma search0_appends:
  "\<not> clause_search schema \<Longrightarrow> appends st (snd (search0 env st u schema md kw))"
  by (cases schema)
     (auto simp: search0_def search_gen_def Let_def
           split: sum.splits option.splits if_splits
           intro!: appends_trans[OF appends_log es_search_appends] appends_log)

lemma mol_round_pivot:
  "mol_round srch env u name True md ids cl st =
     (case id_parts ids of
        Inl e \<Rightarrow> (Inl e, st)
      | Inr parts \<Rightarrow>
          (case srch st u (SName name) (Some md) (mol_kwargs (mol_query parts)) of
             (Inl e, st1) \<Rightarrow> (Inl e, st1)
           | (Inr hits, st1) \<Rightarrow> (Inr (cl, ids @ hit_ids hits), st1)))"
  by (simp add: mol_round_def mol_schemas_def split: sum.splits prod.splits)

lemma mol_round0_appends:
  "appends st (snd (mol_round (search0 env) env u name True md ids cl st))"
  using search0_appends[of "SName name" st env u]
  by (auto simp: mol_round_pivot appends_refl split: sum.splits prod.splits)
     (metis snd_conv)+

lemma mol_finish0_appends:
  "appends st (snd (mol_finish (search0 env) u name objs q md ids st))"
  using search0_appends[of "SName name" st env u]
  by (auto simp: mol_finish_def appends_refl split: sum.splits prod.splits)
     (metis snd_conv)+

lemma mol_loop0_appends:
  "pivot \<Longrightarrow> appends st (snd (mol_loop (search0 env) env u name objs q pivot md failed ids cl st))"
proof (induction "search0 env" env u name objs q pivot md failed ids cl st rule: mol_loop.induct)
  case (1 env u name objs q pivot md failed ids cl st)
  let ?r = "mol_round (search0 env) env u name pivot md ids cl st"
  have a: "appends st (snd ?r)" using 1(2) mol_round0_appends by simp
  show ?case
  proof (cases ?r)
    case (Pair res st1)
    with a have a1: "appends st st1" by simp
    show ?thesis
    proof (cases res)
      case (Inl e)
      with Pair a1 show ?thesis by (subst mol_loop.simps) simp
    next
      case (Inr p)
      obtain cl1 ids1 where p: "p = (cl1, ids1)" by (cases p)
      show ?thesis
      proof (cases "length (list_set env ids1) = length ids")
        case True
        with Pair Inr p a1 show ?thesis
          by (subst mol_loop.simps)
             (auto intro: appends_trans[OF _ mol_finish0_appends])
      next
        case False
        show ?thesis
        proof (cases "failed + 1 > 3")
          case True
          with Pair Inr p a1 False show ?thesis by (subst mol_loop.simps) simp
        next
          case f: False
          from "1.hyps"[OF Pair[symmetric] Inr p[symmetric] False f 1(2)]
          have "appends st1 (snd (mol_loop (search0 env) env u name objs q pivot md (failed + 1)
                    (list_set env ids1) cl1 st1))" .
          with Pair Inr p a1 False f show ?thesis
            by (subst mol_loop.simps) (auto intro: appends_trans)
        qed
      qed
    qed
  qed
qed

lemma get_objects_appends: "appends st (snd (get_objects env st u ids))"
  by (auto simp: get_objects_def appends_refl split: sum.splits intro!: appends_log)

lemma get_object_appends: "appends st (snd (get_object env st u i))"
  using get_objects_appends[of st env u "[i]"]
  by (auto simp: get_object_def split: prod.splits sum.splits option.splits list.splits)

lemma get_molecule0_appends:
  "default_true pivot \<Longrightarrow>
   appends st (snd (get_molecule_gen (search0 env) env st u ids name objs q pivot md))"
  by (auto simp: get_molecule_gen_def Let_def appends_refl mol_loop0_appends split: pyval.splits)

lemma build_refs_appends: "appends st (snd (build_refs env st u v0))"
proof (cases "part1 u")
  case (Inl e)
  then show ?thesis by (simp add: build_refs_def appends_refl)
next
  case (Inr us)
  let ?m = "get_molecule_gen (search0 env) env st u [u] (PyStr ''org'')
                  (Some True) (Some org_query) None (Some False)"
  obtain r st1 where m: "?m = (r, st1)" by (cases ?m)
  have "appends st (snd ?m)" by (rule get_molecule0_appends) simp
  with m have a1: "appends st st1" by simp
  show ?thesis
  proof (cases r)
    case (Inl e)
    with Inr m a1 show ?thesis by (simp add: build_refs_def)
  next
    case rr: (Inr x)
    show ?thesis
    proof (cases x)
      case MFalse
      with Inr m a1 rr show ?thesis by (simp add: build_refs_def)
    next
      case (MIds found)
      with Inr m a1 rr show ?thesis by (simp add: build_refs_def)
    next
      case (MObjs orgs)
      show ?thesis
      proof (cases "orgs = []")
        case True
        with Inr m a1 rr MObjs show ?thesis by (simp add: build_refs_def)
      next
        case ne: False
        show ?thesis
        proof (cases "org_loop (pii_marking_id env) orgs")
          case (Inl e)
          with Inr m a1 rr MObjs ne show ?thesis by (simp add: build_refs_def)
        next
          case ol: (Inr sv)
          obtain should valid where sv: "sv = (should, valid)" by (cases sv)
          let ?s = "search0 env st1 u SNone (Some False)
                      (md_search_kwargs (Match ''definition.distribution_refs'' us # should))"
          obtain r2 st2 where s: "?s = (r2, st2)" by (cases ?s)
          have "appends st1 (snd ?s)" by (rule search0_appends) simp
          with s have a2: "appends st1 st2" by simp
          have "snd (build_refs env st u v0) = st2"
            using Inr m rr MObjs ne ol sv s
            by (simp add: build_refs_def Let_def split: sum.splits)
          with a1 a2 show ?thesis by (auto intro: appends_trans)
        qed
      qed
    qed
  qed
qed

subsection \<open>The policy view\<close>

lemma gim_hit:
  "aliases st (alias_root env u idx @ ''--'' @ alias_date env (today st)) \<noteq> None \<Longrightarrow>
   get_id_markings env st u idx =
     (Inr (GAlias (alias_root env u idx @ ''--'' @ alias_date env (today st))),
      log (EsExistsAlias (alias_root env u idx @ ''--'' @ alias_date env (today st))) st)"
  by (auto simp: get_id_markings_def md_time_index_def es_exists_alias_def Let_def)

lemma gim_miss_steps:
  assumes "aliases st (alias_root env u idx @ ''--'' @ alias_date env (today st)) = None"
    and "get_id_markings env st u idx = (Inr (GAlias m), st')"
  shows "\<exists>os_group os_valid org_should valid_refs st3 st4 idxs st5.
           m = alias_root env u idx @ ''--'' @ alias_date env (today st) \<and>
           get_object env (es_delete_alias (log (EsExistsAlias m) st) (alias_root env u idx))
             (identity_id env) (os_group_id env) = (Inr (Some os_group), st3) \<and>
           build_refs env st3 u (Bool [] [] [ExistsField ''object_marking_refs''] [] # os_valid) =
             (Inr (Some (org_should, valid_refs)), st4) \<and>
           es_cat_aliases st4 idx = (idxs, st5) \<and>
           es_put_alias st5 idxs m (Bool [] valid_refs [] []) = (Inr (), st')"
  using assms
  by (simp add: get_id_markings_def md_time_index_def es_exists_alias_def Let_def
           split: prod.splits sum.splits option.splits) blast

lemma gim_miss:
  assumes miss: "aliases st (alias_root env u idx @ ''--'' @ alias_date env (today st)) = None"
    and res: "get_id_markings env st u idx = (Inr (GAlias m), st')"
  shows "m = alias_root env u idx @ ''--'' @ alias_date env (today st) \<and>
         today st' = today st \<and>
         (\<exists>idxs body mid.
            (\<forall>k. aliases st' k =
                   (if k = m then Some \<lparr>alias_indices = idxs, alias_filter = body\<rparr>
                    else if starts_with (alias_root env u idx) k then None
                    else aliases st k)) \<and>
            trace st' =
              trace st @ [EsExistsAlias m, EsDeleteAlias (alias_root env u idx @ ''*'')] @ mid @
              [EsPutAlias idxs m body])"
proof -
  let ?root = "alias_root env u idx"
  from gim_miss_steps[OF miss res] obtain os_group os_valid org_should valid_refs st3 st4
      idxs st5 where
    m: "m = ?root @ ''--'' @ alias_date env (today st)"
    and go: "get_object env (es_delete_alias (log (EsExistsAlias m) st) ?root)
               (identity_id env) (os_group_id env) = (Inr (Some os_group), st3)"
    and br: "build_refs env st3 u (Bool [] [] [ExistsField ''object_marking_refs''] [] # os_valid) =
               (Inr (Some (org_should, valid_refs)), st4)"
    and ca: "es_cat_aliases st4 idx = (idxs, st5)"
    and pa: "es_put_alias st5 idxs m (Bool [] valid_refs [] []) = (Inr (), st')"
    by blast
  let ?st2 = "es_delete_alias (log (EsExistsAlias m) st) ?root"
  let ?v0 = "Bool [] [] [ExistsField ''object_marking_refs''] [] # os_valid"
  from get_object_appends[of ?st2 env "identity_id env" "os_group_id env"] go
  obtain new1 where s3: "st3 = ?st2\<lparr>trace := trace ?st2 @ new1\<rparr>"
    by (auto simp: appends_def)
  from build_refs_appends[of st3 env u ?v0] br
  obtain new2 where s4: "st4 = st3\<lparr>trace := trace st3 @ new2\<rparr>"
    by (auto simp: appends_def)
  from ca have s5: "st5 = log (EsCatAliases idx) st4"
    by (simp add: es_cat_aliases_def)
  from pa have s6: "st' = (log (EsPutAlias idxs m (Bool [] valid_refs [] [])) st5)
                      \<lparr>aliases := (aliases st5)
                          (m \<mapsto> \<lparr>alias_indices = idxs,
                                  alias_filter = Bool [] valid_refs [] []\<rparr>)\<rparr>"
    by (auto simp: es_put_alias_def split: if_splits)
  have t: "today st' = today st"
    by (simp add: s6 s5 s4 s3 es_delete_alias_def log_def)
  have al: "\<forall>k. aliases st' k =
                 (if k = m then Some \<lparr>alias_indices = idxs,
                                      alias_filter = Bool [] valid_refs [] []\<rparr>
                  else if starts_with ?root k then None else aliases st k)"
    by (simp add: s6 s5 s4 s3 es_delete_alias_def log_def)
  have tr: "trace st' =
              trace st @ [EsExistsAlias m, EsDeleteAlias (?root @ ''*'')] @
              (new1 @ new2 @ [EsCatAliases idx]) @
              [EsPutAlias idxs m (Bool [] valid_refs [] [])]"
    by (simp add: s6 s5 s4 s3 es_delete_alias_def log_def)
  from m t al tr show ?thesis by blast
qed

lemma gim_alias_facts:
  assumes "get_id_markings env st u idx = (Inr (GAlias m), st')"
  shows "m = alias_root env u idx @ ''--'' @ alias_date env (today st) \<and>
         today st' = today st \<and> aliases st' m \<noteq> None"
proof (cases "aliases st (alias_root env u idx @ ''--'' @ alias_date env (today st)) = None")
  case True
  from gim_miss[OF True assms] show ?thesis by auto
next
  case False
  from gim_hit[OF False] assms False show ?thesis by (auto simp: log_def)
qed

lemma starts_with_append: "starts_with r (r @ x)"
  by (simp add: starts_with_def)

text \<open>
  C7. After a call that returned a view name, a second call for the same user and
  index on the same day returns the same name, and all it does is ask whether the
  view exists. A call on a day with another date string, for which no view exists
  yet, that returns a view name returns the new day's name: it has asked for the
  view, deleted the views of the user and index by pattern, and as its last step
  created the new view; the earlier day's view is gone.
\<close>

theorem view_reused_within_day_rebuilt_later:
  assumes first: "get_id_markings env st user_id index_alias = (Inr (GAlias n), st1)"
    and later: "alias_date env d \<noteq> alias_date env (today st1)"
    and fresh: "aliases st1 (alias_root env user_id index_alias @ ''--'' @ alias_date env d) = None"
    and second: "get_id_markings env (st1\<lparr>today := d\<rparr>) user_id index_alias =
                   (Inr (GAlias n'), st2)"
  shows "get_id_markings env st1 user_id index_alias =
           (Inr (GAlias n), log (EsExistsAlias n) st1) \<and>
         n' = alias_root env user_id index_alias @ ''--'' @ alias_date env d \<and>
         n' \<noteq> n \<and> aliases st2 n = None \<and>
         (\<exists>idxs body mid.
            aliases st2 n' = Some \<lparr>alias_indices = idxs, alias_filter = body\<rparr> \<and>
            trace st2 =
              trace st1 @
              [EsExistsAlias n', EsDeleteAlias (alias_root env user_id index_alias @ ''*'')] @
              mid @ [EsPutAlias idxs n' body])"
proof -
  let ?root = "alias_root env user_id index_alias"
  from gim_alias_facts[OF first] have
    n: "n = ?root @ ''--'' @ alias_date env (today st)" and t1: "today st1 = today st"
    and a1: "aliases st1 n \<noteq> None" by auto
  from a1 n t1 have
    "aliases st1 (?root @ ''--'' @ alias_date env (today st1)) \<noteq> None" by simp
  from gim_hit[OF this] n t1 have same:
    "get_id_markings env st1 user_id index_alias = (Inr (GAlias n), log (EsExistsAlias n) st1)"
    by simp
  from fresh have
    "aliases (st1\<lparr>today := d\<rparr>)
       (?root @ ''--'' @ alias_date env (today (st1\<lparr>today := d\<rparr>))) = None" by simp
  from gim_miss[OF this second] obtain idxs body mid where
    n0: "n' = ?root @ ''--'' @ alias_date env (today (st1\<lparr>today := d\<rparr>))"
    and al0: "\<forall>k. aliases st2 k =
                   (if k = n' then Some \<lparr>alias_indices = idxs, alias_filter = body\<rparr>
                    else if starts_with ?root k then None
                    else aliases (st1\<lparr>today := d\<rparr>) k)"
    and tr0: "trace st2 =
              trace (st1\<lparr>today := d\<rparr>) @ [EsExistsAlias n', EsDeleteAlias (?root @ ''*'')] @
              mid @ [EsPutAlias idxs n' body]"
    by blast
  from n0 have n': "n' = ?root @ ''--'' @ alias_date env d" by simp
  from tr0 have tr: "trace st2 = trace st1 @ [EsExistsAlias n', EsDeleteAlias (?root @ ''*'')] @
              mid @ [EsPutAlias idxs n' body]" by simp
  from n n' later t1 have ne: "n' \<noteq> n" by simp
  from al0 ne n have gone: "aliases st2 n = None"
    by (simp add: starts_with_append)
  from al0 have made: "aliases st2 n' = Some \<lparr>alias_indices = idxs, alias_filter = body\<rparr>"
    by simp
  from same n' ne gone made tr show ?thesis by blast
qed

theorem view_reused_within_day_rebuilt_later_witness:
  "fst (get_id_markings demo_env intel_es ''identity--a1'' ''intel'') =
     Inr (GAlias ''intel-identity--a1--day'') \<and>
   get_id_markings demo_env (snd (get_id_markings demo_env intel_es ''identity--a1'' ''intel''))
       ''identity--a1'' ''intel'' =
     (Inr (GAlias ''intel-identity--a1--day''),
      log (EsExistsAlias ''intel-identity--a1--day'')
        (snd (get_id_markings demo_env intel_es ''identity--a1'' ''intel''))) \<and>
   fst (get_id_markings demo_env
          ((snd (get_id_markings demo_env intel_es ''identity--a1'' ''intel''))\<lparr>today := 1\<rparr>)
          ''identity--a1'' ''intel'') =
     Inr (GAlias ''intel-identity--a1--day+'') \<and>
   aliases (snd (get_id_markings demo_env
                   ((snd (get_id_markings demo_env intel_es ''identity--a1'' ''intel''))
                      \<lparr>today := 1\<rparr>)
                   ''identity--a1'' ''intel''))
     ''intel-identity--a1--day'' = None"
proof -
  let ?g1 = "get_id_markings demo_env intel_es ''identity--a1'' ''intel''"
  let ?g2 = "get_id_markings demo_env ((snd ?g1)\<lparr>today := 1\<rparr>) ''identity--a1'' ''intel''"
  have f1: "fst ?g1 = Inr (GAlias ''intel-identity--a1--day'')"
    by (simp add: demo_eval)
  then have first: "?g1 = (Inr (GAlias ''intel-identity--a1--day''), snd ?g1)"
    by (metis prod.collapse)
  from gim_alias_facts[OF first] have t1: "today (snd ?g1) = 0"
    by (simp add: intel_es_def empty_es_def)
  have later: "alias_date demo_env 1 \<noteq> alias_date demo_env (today (snd ?g1))"
    unfolding t1 by (simp add: demo_env_def)
  have i0: "aliases intel_es
              (alias_root demo_env ''identity--a1'' ''intel'' @ ''--'' @
               alias_date demo_env (today intel_es)) = None"
    by (simp add: demo_env_def intel_es_def empty_es_def)
  from gim_miss[OF i0 first] have fresh:
    "aliases (snd ?g1)
       (alias_root demo_env ''identity--a1'' ''intel'' @ ''--'' @ alias_date demo_env 1) = None"
    by (auto simp: demo_env_def intel_es_def empty_es_def starts_with_def)
  have f2: "fst ?g2 = Inr (GAlias ''intel-identity--a1--day+'')"
    by (simp add: demo_eval)
  then have second: "?g2 = (Inr (GAlias ''intel-identity--a1--day+''), snd ?g2)"
    by (metis prod.collapse)
  note c = view_reused_within_day_rebuilt_later[OF first later fresh second]
  from c[THEN conjunct1] c[THEN conjunct2, THEN conjunct2, THEN conjunct2, THEN conjunct1] f1 f2
  show ?thesis by (intro conjI)
qed


subsection \<open>The check list of a traversal without \<^verbatim>\<open>pivot\<close>\<close>

text \<open>
  Searches for a clause are counted in the trace. Building the policy view, and
  every search for anything but the clause \<open>c\<close>, leaves the count for \<open>c\<close> as it is.
\<close>

lemma marked_iff:
  "marked c cs cl = (\<forall>j < length cs. cs ! j = c \<longrightarrow> j < length cl \<and> cl ! j)"
  by (auto simp: marked_def list_all_iff)

lemma count_list_append_local: "count_list (xs @ ys) a = count_list xs a + count_list ys a"
  by (induction xs) auto

lemma quiet_queries:
  assumes "quiet st st'"
  shows "clause_queries c st' = clause_queries c st"
proof -
  from assms obtain new where t: "trace st' = trace st @ new"
    and f: "filter clause_search (searched new) = []"
    by (auto simp: quiet_def)
  have "SClause c \<notin> set (searched new)"
  proof
    assume "SClause c \<in> set (searched new)"
    then have "SClause c \<in> set (filter clause_search (searched new))" by simp
    with f show False by simp
  qed
  then have "count_list (searched new) (SClause c) = 0"
    by (simp add: count_list_0_iff)
  with t show ?thesis
    by (simp add: clause_queries_def searched_append count_list_append_local)
qed

lemma quiet_refl: "quiet st st"
  by (simp add: quiet_def)

lemma quiet_trans: "quiet a b \<Longrightarrow> quiet b c \<Longrightarrow> quiet a c"
  by (auto simp: quiet_def searched_append)

lemma quiet_log: "filter clause_search (searched [e]) = [] \<Longrightarrow> quiet st (log e st)"
  by (simp add: quiet_def log_def)

lemma quiet_delete_alias: "quiet st (es_delete_alias st root)"
  by (simp add: quiet_def es_delete_alias_def log_def)

lemma quiet_cat_aliases: "quiet st (snd (es_cat_aliases st name))"
  by (simp add: quiet_def es_cat_aliases_def log_def)

lemma quiet_put_alias: "quiet st (snd (es_put_alias st idxs name body))"
  by (simp add: quiet_def es_put_alias_def log_def)

lemma get_id_markings_quiet: "quiet st (snd (get_id_markings env st u idx))"
proof -
  let ?n = "alias_root env u idx @ ''--'' @ alias_date env (today st)"
  let ?st1 = "log (EsExistsAlias ?n) st"
  let ?st2 = "es_delete_alias ?st1 (alias_root env u idx)"
  have q1: "quiet st ?st1" by (rule quiet_log) simp
  have q2: "quiet st ?st2" by (rule quiet_trans[OF q1 quiet_delete_alias])
  show ?thesis
  proof (cases "aliases st ?n = None")
    case False
    with q1 show ?thesis
      by (auto simp: get_id_markings_def md_time_index_def es_exists_alias_def Let_def)
  next
    case miss: True
    obtain r3 st3 where go: "get_object env ?st2 (identity_id env) (os_group_id env) = (r3, st3)"
      by (cases "get_object env ?st2 (identity_id env) (os_group_id env)")
    from get_object_appends[of ?st2 env "identity_id env" "os_group_id env"] go
    have "quiet ?st2 st3" by (simp add: appends_quiet)
    with q2 have q3: "quiet st st3" by (rule quiet_trans)
    have unf: "get_id_markings env st u idx =
       (case r3 of
          Inl e \<Rightarrow> (Inl e, st3)
        | Inr None \<Rightarrow> (Inl TypeError, st3)
        | Inr (Some os_group) \<Rightarrow>
            (case map_of os_group ''object_refs'' of
               None \<Rightarrow> (Inl KeyError, st3)
             | Some os_list \<Rightarrow>
                 (case os_refs (py_iter os_list) of
                    Inl e \<Rightarrow> (Inl e, st3)
                  | Inr os_valid \<Rightarrow>
                      (case build_refs env st3 u
                              (Bool [] [] [ExistsField ''object_marking_refs''] [] # os_valid) of
                         (Inl e, st4) \<Rightarrow> (Inl e, st4)
                       | (Inr None, st4) \<Rightarrow> (Inr GFalse, st4)
                       | (Inr (Some (org_should, valid_refs)), st4) \<Rightarrow>
                           (case es_put_alias (snd (es_cat_aliases st4 idx))
                                   (fst (es_cat_aliases st4 idx)) ?n
                                   (Bool [] valid_refs [] []) of
                              (Inl e, st6) \<Rightarrow> (Inl e, st6)
                            | (Inr u, st6) \<Rightarrow> (Inr (GAlias ?n), st6))))))"
      using miss go
      by (simp add: get_id_markings_def md_time_index_def es_exists_alias_def Let_def
               split: prod.splits sum.splits option.splits)
    show ?thesis
    proof (cases r3)
      case (Inl e)
      with unf q3 show ?thesis by simp
    next
      case (Inr o3)
      show ?thesis
      proof (cases o3)
        case None
        with unf q3 Inr show ?thesis by simp
      next
        case (Some os_group)
        show ?thesis
        proof (cases "map_of os_group ''object_refs''")
          case None
          with unf q3 Inr Some show ?thesis by simp
        next
          case os: (Some os_list)
          show ?thesis
          proof (cases "os_refs (py_iter os_list)")
            case (Inl e)
            with unf q3 Inr Some os show ?thesis by simp
          next
            case ov: (Inr os_valid)
            let ?v0 = "Bool [] [] [ExistsField ''object_marking_refs''] [] # os_valid"
            obtain r4 st4 where br: "build_refs env st3 u ?v0 = (r4, st4)"
              by (cases "build_refs env st3 u ?v0")
            from build_refs_appends[of st3 env u ?v0] br have "quiet st3 st4"
              by (simp add: appends_quiet)
            with q3 have q4: "quiet st st4" by (rule quiet_trans)
            show ?thesis
            proof (cases r4)
              case (Inl e)
              with unf q4 Inr Some os ov br show ?thesis by simp
            next
              case r4: (Inr o4)
              show ?thesis
              proof (cases o4)
                case None
                with unf q4 Inr Some os ov br r4 show ?thesis by simp
              next
                case s4: (Some sv)
                obtain org_should valid_refs where sv: "sv = (org_should, valid_refs)"
                  by (cases sv)
                let ?p = "es_put_alias (snd (es_cat_aliases st4 idx))
                            (fst (es_cat_aliases st4 idx)) ?n (Bool [] valid_refs [] [])"
                have "quiet st4 (snd ?p)"
                  by (rule quiet_trans[OF quiet_cat_aliases quiet_put_alias])
                with q4 have q6: "quiet st (snd ?p)" by (rule quiet_trans)
                have "snd (get_id_markings env st u idx) = snd ?p"
                  using unf Inr Some os ov br r4 s4 sv
                  by (simp split: prod.splits sum.splits)
                with q6 show ?thesis by simp
              qed
            qed
          qed
        qed
      qed
    qed
  qed
qed

lemma queries_log:
  "clause_queries c (log e st) = clause_queries c st + count_list (searched [e]) (SClause c)"
  by (simp add: clause_queries_def log_def searched_append count_list_append_local)

lemma queries_es_search: "clause_queries c (snd (es_search env st req)) = clause_queries c st"
  by (rule quiet_queries[OF appends_quiet[OF es_search_appends]])

lemma queries_gim: "clause_queries c (snd (get_id_markings env st u i)) = clause_queries c st"
  by (rule quiet_queries[OF get_id_markings_quiet])

lemma search_queries:
  assumes "schema \<noteq> SClause c"
  shows "clause_queries c (snd (search env st u schema md kw)) = clause_queries c st"
proof -
  let ?st0 = "log (ClientSearch u schema) st"
  have q0: "clause_queries c ?st0 = clause_queries c st"
    using assms by (simp add: queries_log)
  obtain rg st1 where g: "get_id_markings env ?st0 u
      (case kw_index kw of None \<Rightarrow> ''intel'' | Some i \<Rightarrow> i) = (rg, st1)"
    by (cases "get_id_markings env ?st0 u (case kw_index kw of None \<Rightarrow> ''intel'' | Some i \<Rightarrow> i)")
  from queries_gim[of c env ?st0 u "case kw_index kw of None \<Rightarrow> ''intel'' | Some i \<Rightarrow> i"] g q0
  have q1: "clause_queries c st1 = clause_queries c st" by simp
  show ?thesis
    using q0 q1 g
    by (auto simp: search_def search_gen_def Let_def queries_es_search
             split: sum.splits option.splits gim_result.splits if_splits prod.splits)
qed

text \<open>
  Once \<^verbatim>\<open>check_lst[count]\<close> is \<^verbatim>\<open>True\<close> the loop over the schemas skips every
  schema that is left (\<^verbatim>\<open>continue\<close> does not move \<^verbatim>\<open>count\<close>); an entry below the
  counter is not written again in the round; and a round that starts with every
  place of \<open>c\<close> marked does not search for \<open>c\<close> and ends with every place of \<open>c\<close>
  marked.
\<close>

lemma mol_clauses_skip_all:
  "count < length cl \<Longrightarrow> cl ! count \<Longrightarrow>
   mol_clauses srch False schemas count cl ids st = (Inr (cl, ids), st)"
  by (induction schemas) auto

lemma mol_clauses_keeps:
  "mol_clauses srch False schemas k' cl ids st = (Inr (cl', ids'), st') \<Longrightarrow>
   j < k' \<Longrightarrow> k' \<le> length cl \<Longrightarrow> j < length cl' \<and> cl' ! j = cl ! j"
proof (induction schemas arbitrary: k' cl ids st)
  case Nil
  then show ?case by simp
next
  case (Cons s rest)
  show ?case
  proof (cases "k' < length cl \<and> cl ! k'")
    case True
    with Cons.prems show ?thesis by (simp add: mol_clauses_skip_all)
  next
    case False
    obtain r st1 where s1: "srch st s = (r, st1)" by (cases "srch st s")
    with Cons.prems(1) False obtain hits where r: "r = Inr hits"
      by (cases r) auto
    let ?cl1 = "if k' < length cl then cl[k' := (hits \<noteq> [])] else cl @ [hits \<noteq> []]"
    from Cons.prems(1) False s1 r have
      rec: "mol_clauses srch False rest (Suc k') ?cl1 (ids @ hit_ids hits) st1 =
              (Inr (cl', ids'), st')"
      by auto
    from Cons.prems have l: "Suc k' \<le> length ?cl1" by auto
    from Cons.IH[OF rec _ l] Cons.prems(2) have "j < length cl' \<and> cl' ! j = ?cl1 ! j" by simp
    moreover from Cons.prems have "?cl1 ! j = cl ! j" by (auto simp: nth_append)
    ultimately show ?thesis by simp
  qed
qed

lemma mol_clauses_writes:
  assumes "k \<le> length cl" and "\<not> (k < length cl \<and> cl ! k)"
    and "srch st schema = (Inr hits, st1)"
    and "mol_clauses srch False (schema # rest) k cl ids st = (Inr (cl', ids'), st')"
  shows "k < length cl' \<and> cl' ! k = (hits \<noteq> [])"
proof -
  let ?cl1 = "if k < length cl then cl[k := (hits \<noteq> [])] else cl @ [hits \<noteq> []]"
  from assms have rec: "mol_clauses srch False rest (Suc k) ?cl1 (ids @ hit_ids hits) st1 =
                          (Inr (cl', ids'), st')"
    by auto
  from assms(1) have l: "Suc k \<le> length ?cl1" by auto
  from mol_clauses_keeps[OF rec _ l, of k] have "k < length cl' \<and> cl' ! k = ?cl1 ! k" by simp
  moreover from assms(1) have "?cl1 ! k = (hits \<noteq> [])" by (auto simp: nth_append)
  ultimately show ?thesis by simp
qed

lemma mol_clauses_marked:
  assumes step: "\<And>s q. q \<noteq> c \<Longrightarrow>
                  clause_queries c (snd (srch s (SClause q))) = clause_queries c s"
  shows "marked c cs cl \<Longrightarrow> rest = drop k cs \<Longrightarrow>
         clause_queries c (snd (mol_clauses srch False (map SClause rest) k cl ids st)) =
           clause_queries c st \<and>
         (\<forall>cl' ids'. fst (mol_clauses srch False (map SClause rest) k cl ids st) = Inr (cl', ids')
            \<longrightarrow> marked c cs cl')"
proof (induction rest arbitrary: k cl ids st)
  case Nil
  then show ?case by simp
next
  case (Cons x rest)
  from Cons.prems(2) have k: "k < length cs"
    by (metis drop_eq_Nil2 list.distinct(1) not_le)
  from Cons.prems(2) k have x: "x = cs ! k" and rest: "rest = drop (Suc k) cs"
    by (metis Cons_nth_drop_Suc list.inject)+
  show ?case
  proof (cases "k < length cl \<and> cl ! k")
    case True
    then show ?thesis
      using Cons.prems(1) by (simp add: mol_clauses_skip_all)
  next
    case False
    with Cons.prems(1) k x have xc: "x \<noteq> c"
      by (auto simp: marked_iff)
    obtain r st1 where s1: "srch st (SClause x) = (r, st1)" by (cases "srch st (SClause x)")
    from step[OF xc, of st] s1 have q1: "clause_queries c st1 = clause_queries c st" by simp
    show ?thesis
    proof (cases r)
      case (Inl e)
      with False s1 q1 show ?thesis by auto
    next
      case (Inr hits)
      let ?cl1 = "if k < length cl then cl[k := (hits \<noteq> [])] else cl @ [hits \<noteq> []]"
      have m1: "marked c cs ?cl1"
        unfolding marked_iff
      proof (intro allI impI)
        fix j assume j: "j < length cs" and cj: "cs ! j = c"
        with Cons.prems(1) have a: "j < length cl" "cl ! j" by (auto simp: marked_iff)
        from cj xc x have "j \<noteq> k" by auto
        with a show "j < length ?cl1 \<and> ?cl1 ! j" by (auto simp: nth_append)
      qed
      from Cons.IH[OF m1 rest, of "ids @ hit_ids hits" st1] False s1 Inr q1
      show ?thesis by auto
    qed
  qed
qed

lemma mol_round_marked:
  assumes "get_schema env name = Some cs" and "marked c cs cl"
  shows "clause_queries c (snd (mol_round (search env) env u name False md ids cl st)) =
           clause_queries c st \<and>
         (\<forall>cl' ids'. fst (mol_round (search env) env u name False md ids cl st) = Inr (cl', ids')
            \<longrightarrow> marked c cs cl')"
proof (cases "id_parts ids")
  case (Inl e)
  then show ?thesis by (simp add: mol_round_def)
next
  case (Inr parts)
  have "\<And>s q. q \<noteq> c \<Longrightarrow>
          clause_queries c (snd (search env s u (SClause q) (Some md) (mol_kwargs (mol_query parts)))) =
          clause_queries c s"
    by (rule search_queries) simp
  from mol_clauses_marked[of c "\<lambda>s schema. search env s u schema (Some md) (mol_kwargs (mol_query parts))",
         OF this assms(2), of cs 0 ids st]
  show ?thesis using Inr assms(1)
    by (simp add: mol_round_def mol_schemas_def)
qed

lemma mol_finish_queries:
  "clause_queries c (snd (mol_finish (search env) u name objs q md ids st)) = clause_queries c st"
proof -
  have "\<And>kw. clause_queries c (snd (search env st u (SName name) (Some md) kw)) =
              clause_queries c st"
    by (rule search_queries) simp
  then show ?thesis
    by (auto simp: mol_finish_def split: sum.splits prod.splits) (metis snd_conv)+
qed

lemma mol_loop_marked:
  "get_schema env name = Some cs \<Longrightarrow> marked c cs cl \<Longrightarrow> \<not> pivot \<Longrightarrow> srch = search env \<Longrightarrow>
   clause_queries c (snd (mol_loop srch env u name objs q pivot md failed ids cl st)) =
     clause_queries c st"
proof (induction srch env u name objs q pivot md failed ids cl st rule: mol_loop.induct)
  case (1 srch env u name objs q pivot md failed ids cl st)
  let ?r = "mol_round srch env u name pivot md ids cl st"
  obtain res st1 where r: "?r = (res, st1)" by (cases ?r)
  from mol_round_marked[OF "1.prems"(1,2), of u md ids st] r "1.prems"(3,4)
  have q1: "clause_queries c st1 = clause_queries c st"
    and m1: "\<And>cl' ids'. res = Inr (cl', ids') \<Longrightarrow> marked c cs cl'"
    by auto
  show ?case
  proof (cases res)
    case (Inl e)
    with r q1 show ?thesis by (subst mol_loop.simps) simp
  next
    case (Inr p)
    obtain cl1 ids1 where p: "p = (cl1, ids1)" by (cases p)
    from m1 Inr p have m: "marked c cs cl1" by simp
    show ?thesis
    proof (cases "length (list_set env ids1) = length ids")
      case True
      with r Inr p q1 "1.prems"(4) show ?thesis
        by (subst mol_loop.simps) (simp add: mol_finish_queries)
    next
      case False
      show ?thesis
      proof (cases "failed + 1 > 3")
        case True
        with r Inr p q1 False show ?thesis by (subst mol_loop.simps) simp
      next
        case f: False
        from "1.IH"[OF r[symmetric] Inr p[symmetric] False f "1.prems"(1) m "1.prems"(3,4)] q1
        have "clause_queries c (snd (mol_loop srch env u name objs q pivot md (failed + 1)
                (list_set env ids1) cl1 st1)) = clause_queries c st" by simp
        with r Inr p False f show ?thesis by (subst mol_loop.simps) simp
      qed
    qed
  qed
qed

lemma marked_distinct:
  assumes "distinct cs" and "k < length cs" and "k < length cl" and "cl ! k"
  shows "marked (cs ! k) cs cl"
  unfolding marked_iff
proof (intro allI impI)
  fix j assume "j < length cs" and "cs ! j = cs ! k"
  with assms(1,2) have "j = k" by (simp add: nth_eq_iff_index_eq)
  with assms(3,4) show "j < length cl \<and> cl ! j" by simp
qed

text \<open>
  C3 (as amended). In a traversal without \<^verbatim>\<open>pivot\<close>: when the loop of a round is at
  the clause \<open>cs ! k\<close> with the counter at \<open>k\<close> and does not skip it, the round ends
  with \<^verbatim>\<open>check_lst[k]\<close> equal to "the search returned hits", so a clause (of a
  schema without repeated clauses) whose search returned hits is marked; and a
  clause that is marked at the start of a round is not searched for in that round or
  in any later round of the traversal.
\<close>

theorem hit_clause_never_queried_again:
  "(k < length cs \<and> k \<le> length check_lst \<and> \<not> (k < length check_lst \<and> check_lst ! k) \<and>
    srch st (SClause (cs ! k)) = (Inr hits, st_res) \<and>
    mol_clauses srch False (map SClause (drop k cs)) k check_lst ids st =
      (Inr (check_lst', ids'), st')
    \<longrightarrow> k < length check_lst' \<and> check_lst' ! k = (hits \<noteq> []) \<and>
        (distinct cs \<and> hits \<noteq> [] \<longrightarrow> marked (cs ! k) cs check_lst')) \<and>
   (get_schema env name = Some cs \<and> marked c cs check_lst
    \<longrightarrow> clause_queries c
          (snd (mol_loop (search env) env user_id name objs query_arg False md failed ids
                  check_lst st)) =
        clause_queries c st)"
proof (intro conjI impI)
  assume a: "k < length cs \<and> k \<le> length check_lst \<and>
    \<not> (k < length check_lst \<and> check_lst ! k) \<and>
    srch st (SClause (cs ! k)) = (Inr hits, st_res) \<and>
    mol_clauses srch False (map SClause (drop k cs)) k check_lst ids st =
      (Inr (check_lst', ids'), st')"
  then have d: "map SClause (drop k cs) = SClause (cs ! k) # map SClause (drop (Suc k) cs)"
    by (simp add: Cons_nth_drop_Suc[symmetric])
  from a have w: "k < length check_lst' \<and> check_lst' ! k = (hits \<noteq> [])"
    using mol_clauses_writes[of k check_lst srch st "SClause (cs ! k)" hits st_res
            "map SClause (drop (Suc k) cs)" ids check_lst' ids' st']
    unfolding d by blast
  then show "k < length check_lst'" and "check_lst' ! k = (hits \<noteq> [])" by simp_all
  assume "distinct cs \<and> hits \<noteq> []"
  with a w show "marked (cs ! k) cs check_lst'"
    by (simp add: marked_distinct)
next
  assume "get_schema env name = Some cs \<and> marked c cs check_lst"
  then show "clause_queries c
          (snd (mol_loop (search env) env user_id name objs query_arg False md failed ids
                  check_lst st)) =
        clause_queries c st"
    by (simp add: mol_loop_marked)
qed

theorem hit_clause_never_queried_again_witness:
  "fst (search demo_env empty_es ''identity--a1'' (SClause (incident_schema ! 1)) (Some False)
          (mol_kwargs (mol_query [''a1'']))) =
     Inr [[(''id'', JStr ''relationship--r1''), (''source_ref'', JStr ''identity--a1''),
           (''target_ref'', JStr ''identity--org1'')]] \<and>
   fst (mol_clauses
          (\<lambda>s schema. search demo_env s ''identity--a1'' schema (Some False)
                         (mol_kwargs (mol_query [''a1''])))
          False (map SClause (drop 1 incident_schema)) 1 [False] [''identity--a1''] empty_es) =
     Inr ([False, True], [''identity--a1'', ''relationship--r1'', ''identity--a1'',
                          ''identity--org1'']) \<and>
   marked (incident_schema ! 1) incident_schema [False, True] \<and>
   clause_queries (incident_schema ! 1)
     (snd (mol_loop (search demo_env) demo_env ''identity--a1'' ''incident'' False None False
             False 1 [''relationship--r1'', ''identity--a1'', ''identity--org1'']
             [False, True] empty_es)) = 0"
proof -
  let ?srch = "\<lambda>s schema. search demo_env s ''identity--a1'' schema (Some False)
                              (mol_kwargs (mol_query [''a1'']))"
  let ?hits = "[[(''id'', JStr ''relationship--r1''), (''source_ref'', JStr ''identity--a1''),
                 (''target_ref'', JStr ''identity--org1'')]]"
  let ?s = "?srch empty_es (SClause (incident_schema ! 1))"
  let ?m = "mol_clauses ?srch False (map SClause (drop 1 incident_schema)) 1 [False]
              [''identity--a1''] empty_es"
  let ?ids' = "[''identity--a1'', ''relationship--r1'', ''identity--a1'', ''identity--org1'']"
  have h: "fst ?s = Inr ?hits"
    by (simp add: demo_eval)
  then have s: "?s = (Inr ?hits, snd ?s)" by (metis prod.collapse)
  have c: "fst ?m = Inr ([False, True], ?ids')"
    by (simp add: demo_eval)
  then have m: "?m = (Inr ([False, True], ?ids'), snd ?m)" by (metis prod.collapse)
  have d: "distinct incident_schema \<and> ?hits \<noteq> []"
    by (simp add: incident_schema_def)
  have p: "(1::nat) < length incident_schema \<and> 1 \<le> length [False] \<and>
           \<not> (1 < length [False] \<and> [False] ! 1)"
    by (simp add: incident_schema_def)
  from hit_clause_never_queried_again[where k = 1 and cs = incident_schema and
         check_lst = "[False]" and srch = ?srch and st = empty_es and hits = ?hits and
         st_res = "snd ?s" and ids = "[''identity--a1'']" and check_lst' = "[False, True]" and
         ids' = ?ids' and st' = "snd ?m", THEN conjunct1] p s m d
  have mk: "marked (incident_schema ! 1) incident_schema [False, True]"
    by blast
  have g: "get_schema demo_env ''incident'' = Some incident_schema"
    by (simp add: demo_env_def)
  from hit_clause_never_queried_again[where env = demo_env and name = "''incident''" and
         cs = incident_schema and c = "incident_schema ! 1" and check_lst = "[False, True]" and
         st = empty_es, THEN conjunct2] g mk
  have "clause_queries (incident_schema ! 1)
     (snd (mol_loop (search demo_env) demo_env ''identity--a1'' ''incident'' False None False
             False 1 [''relationship--r1'', ''identity--a1'', ''identity--org1'']
             [False, True] empty_es)) = clause_queries (incident_schema ! 1) empty_es"
    by blast
  then have q: "clause_queries (incident_schema ! 1)
     (snd (mol_loop (search demo_env) demo_env ''identity--a1'' ''incident'' False None False
             False 1 [''relationship--r1'', ''identity--a1'', ''identity--org1'']
             [False, True] empty_es)) = 0"
    by (simp add: clause_queries_def empty_es_def)
  from h c mk q show ?thesis by (intro conjI)
qed

text \<open>
  C3 (counterexample). The schema has the clauses "attack pattern" and
  "relationship". In round 1 the first returns no hit and the second returns one
  (the check list is \<^verbatim>\<open>[False, True]\<close>); in round 2 the first clause is searched
  again and the second is not.
\<close>

theorem zero_hit_clause_queried_again:
  "fst (mol_round (search demo_env) demo_env ''identity--a1'' ''incident'' False False
          [''identity--a1''] [] empty_es) =
     Inr ([False, True],
          [''identity--a1'', ''relationship--r1'', ''identity--a1'', ''identity--org1'']) \<and>
   searched (trace (snd (get_molecule demo_env empty_es ''identity--a1'' [''identity--a1'']
                           (PyStr ''incident'') None None (Some False) (Some False)))) =
     [SClause (Match ''type'' ''attack-pattern''), SClause (Match ''type'' ''relationship''),
      SClause (Match ''type'' ''attack-pattern'')]"
proof -
  have "fst (mol_round (search demo_env) demo_env ''identity--a1'' ''incident'' False False
          [''identity--a1''] [] empty_es) =
     Inr ([False, True],
          [''identity--a1'', ''relationship--r1'', ''identity--a1'', ''identity--org1''])"
    by (simp add: demo_eval)
  moreover have
    "searched (trace (snd (get_molecule demo_env empty_es ''identity--a1'' [''identity--a1'']
                           (PyStr ''incident'') None None (Some False) (Some False)))) =
     [SClause (Match ''type'' ''attack-pattern''), SClause (Match ''type'' ''relationship''),
      SClause (Match ''type'' ''attack-pattern'')]"
    by (simp add: demo_eval)
  ultimately show ?thesis by (intro conjI)
qed


end
